theory Spec2Isabelle
  imports Main "HOL-Library.Log_Nat" "HOL-Library.AList"
begin

section \<open>Python numbers and exceptions\<close>

text \<open>
  The funnel generator computes with Python \<open>int\<close> (unbounded, modelled as \<open>int\<close>) and
  Python \<open>float\<close> (IEEE 754 binary64). A finite float is a rational number, so a float
  value is modelled as the \<open>rat\<close> it denotes, and every float operation is the exact
  rational operation followed by rounding to the nearest number with a 53-bit significand,
  ties to the even significand (\<open>to_double\<close>). A float literal is the rounding of the
  decimal written, and an int that meets a float is first converted, which is again the
  rounding. The exponent range (overflow to infinity, subnormal numbers) and the values
  \<open>nan\<close> and \<open>inf\<close> are not modelled: the values that reach a float operation in
  \<open>generate_funnel\<close> are list lengths, their products with the rates and the revenue
  figures derived from them.
\<close>

text \<open>
  The exceptions that occur, each with its message: \<open>HTTPError\<close> is raised by
  \<open>raise_for_status\<close>, \<open>RequestException\<close> by a request that gets no response,
  \<open>JSONDecodeError\<close> by \<open>response.json()\<close> on a body that cannot be decoded.
\<close>

datatype error = ZeroDivisionError | ValueError string | HTTPError string
  | RequestException string | JSONDecodeError string

text \<open>Python's built-in \<open>round(x)\<close> on a float: the nearest integer, ties to the even one.\<close>

definition py_round :: "rat \<Rightarrow> int" where
  "py_round x = (let f = \<lfloor>x\<rfloor>; d = x - of_int f in
     if d < 1/2 then f else if 1/2 < d then f + 1 else if even f then f else f + 1)"

text \<open>The binary exponent of a non-zero rational: \<open>2 ^ expo x \<le> \<bar>x\<bar> < 2 ^ (expo x + 1)\<close>.\<close>

definition expo :: "rat \<Rightarrow> int" where
  "expo x = (case quotient_of \<bar>x\<bar> of (p, q) \<Rightarrow>
     let d = bitlen p - bitlen q in if power_int 2 d \<le> \<bar>x\<bar> then d else d - 1)"

text \<open>Rounding to binary64: 53 significant bits, nearest, ties to even.\<close>

definition to_double :: "rat \<Rightarrow> rat" where
  "to_double x = (if x = 0 then 0 else
     let u = power_int 2 (expo x - 52) in of_int (py_round (x / u)) * u)"

text \<open>\<open>n * c\<close> for an int \<open>n\<close> and a float \<open>c\<close>: the int is converted, the product rounded.\<close>

definition py_mul_int_float :: "int \<Rightarrow> rat \<Rightarrow> rat" where
  "py_mul_int_float n c = to_double (to_double (of_int n) * c)"

text \<open>
  True division \<open>a / b\<close> of two numbers, each an int below \<open>2 ^ 53\<close> in size or a float:
  the quotient of the two floats, rounded. It raises when the divisor is zero.
\<close>

definition py_truediv :: "rat \<Rightarrow> rat \<Rightarrow> error + rat" where
  "py_truediv a b = (if b = 0 then Inl ZeroDivisionError
     else Inr (to_double (to_double a / to_double b)))"

definition then_res :: "error + 'a \<Rightarrow> ('a \<Rightarrow> error + 'b) \<Rightarrow> error + 'b" where
  "then_res r f = (case r of Inl e \<Rightarrow> Inl e | Inr v \<Rightarrow> f v)"

section \<open>upmarket\_funnel.py\<close>

datatype segment = Enterprise | Midmarket | SMB

text \<open>The tier order of the segments: Enterprise above Midmarket above SMB.\<close>

fun tier :: "segment \<Rightarrow> nat" where
  "tier SMB = 0"
| "tier Midmarket = 1"
| "tier Enterprise = 2"

text \<open>
  A lead is a dictionary read with \<open>lead.get(key, default)\<close>; an absent key is \<open>None\<close>.
  The four signals are Python numbers (int or finite float).
\<close>

record lead =
  lead_account_id :: "string option"
  lead_account_name :: "string option"
  lead_current_mrr :: "rat option"
  lead_user_count :: "rat option"
  lead_referral_arr :: "rat option"
  lead_lead_score :: "rat option"
  lead_qualification_tier :: "string option"

definition get_or :: "'a option \<Rightarrow> 'a \<Rightarrow> 'a" where
  "get_or v d = (case v of None \<Rightarrow> d | Some x \<Rightarrow> x)"

record LeadCategory =
  account_id :: string
  account_name :: string
  partner :: string
  segment :: segment
  current_mrr :: rat
  user_count :: int
  referral_arr :: rat
  lead_score :: int
  qualification_tier :: string

record FunnelMetrics =
  stage :: string
  enterprise_count :: int
  midmarket_count :: int
  smb_count :: int
  total_count :: int
  estimated_acv :: rat
  conversion_rate :: rat
  estimated_revenue :: int

record criteria =
  mrr_threshold :: rat
  user_threshold :: rat
  arr_threshold :: rat
  lead_score_min :: rat

definition ENTERPRISE_CRITERIA :: criteria where
  "ENTERPRISE_CRITERIA =
     \<lparr>mrr_threshold = 1000, user_threshold = 50, arr_threshold = 12000, lead_score_min = 80\<rparr>"

definition MIDMARKET_CRITERIA :: criteria where
  "MIDMARKET_CRITERIA =
     \<lparr>mrr_threshold = 100, user_threshold = 10, arr_threshold = 1200, lead_score_min = 60\<rparr>"

fun ESTIMATED_ACV :: "segment \<Rightarrow> int" where
  "ESTIMATED_ACV Enterprise = 50000"
| "ESTIMATED_ACV Midmarket = 15000"
| "ESTIMATED_ACV SMB = 5000"

datatype transition = Leads_Qualified | Qualified_Opportunity | Opportunity_Closed_Won

text \<open>The rates are float literals: each is the double nearest to the decimal written.\<close>

fun CONVERSION_RATES :: "transition \<Rightarrow> segment \<Rightarrow> rat" where
  "CONVERSION_RATES Leads_Qualified Enterprise = to_double (40 / 100)"
| "CONVERSION_RATES Leads_Qualified Midmarket = to_double (30 / 100)"
| "CONVERSION_RATES Leads_Qualified SMB = to_double (20 / 100)"
| "CONVERSION_RATES Qualified_Opportunity Enterprise = to_double (60 / 100)"
| "CONVERSION_RATES Qualified_Opportunity Midmarket = to_double (50 / 100)"
| "CONVERSION_RATES Qualified_Opportunity SMB = to_double (40 / 100)"
| "CONVERSION_RATES Opportunity_Closed_Won Enterprise = to_double (30 / 100)"
| "CONVERSION_RATES Opportunity_Closed_Won Midmarket = to_double (25 / 100)"
| "CONVERSION_RATES Opportunity_Closed_Won SMB = to_double (20 / 100)"

text \<open>\<open>int(x)\<close> on a Python number truncates toward zero.\<close>

definition py_int :: "rat \<Rightarrow> int" where
  "py_int x = (if 0 \<le> x then \<lfloor>x\<rfloor> else - \<lfloor>- x\<rfloor>)"

definition categorize_lead :: "lead \<Rightarrow> string \<Rightarrow> LeadCategory" where
  "categorize_lead lead p =
    (let current_mrr' = get_or (lead_current_mrr lead) 0;
         user_count' = get_or (lead_user_count lead) 0;
         referral_arr' = get_or (lead_referral_arr lead) 0;
         lead_score' = get_or (lead_lead_score lead) 0;
         qualification_tier' = get_or (lead_qualification_tier lead) ''Unqualified'';
         segment' =
           (if current_mrr' \<ge> mrr_threshold ENTERPRISE_CRITERIA \<or>
               user_count' \<ge> user_threshold ENTERPRISE_CRITERIA \<or>
               referral_arr' \<ge> arr_threshold ENTERPRISE_CRITERIA \<or>
               lead_score' \<ge> lead_score_min ENTERPRISE_CRITERIA
            then Enterprise
            else if current_mrr' \<ge> mrr_threshold MIDMARKET_CRITERIA \<or>
               user_count' \<ge> user_threshold MIDMARKET_CRITERIA \<or>
               referral_arr' \<ge> arr_threshold MIDMARKET_CRITERIA \<or>
               lead_score' \<ge> lead_score_min MIDMARKET_CRITERIA
            then Midmarket
            else SMB)
     in \<lparr>account_id = get_or (lead_account_id lead) '''',
         account_name = get_or (lead_account_name lead) ''Unknown'',
         partner = p,
         segment = segment',
         current_mrr = to_double current_mrr',
         user_count = py_int user_count',
         referral_arr = to_double referral_arr',
         lead_score = py_int lead_score',
         qualification_tier = qualification_tier'\<rparr>)"

text \<open>
  The rows of \<open>funnel_stages\<close> and the \<open>summary\<close> of the returned dictionary. The source
  formats the rates, the revenue and the progress into strings (\<open>f'{x:.1%}'\<close>); the model
  keeps the numbers that are formatted.
\<close>

record stage_row =
  row_Stage :: string
  row_Enterprise :: int
  row_Midmarket :: int
  row_SMB :: int
  row_Total :: int
  row_Conversion_Rate :: rat
  row_Estimated_Revenue :: int

record summary =
  Current_Quarter_Target :: rat
  Total_Leads :: int
  Enterprise_Leads :: int
  Midmarket_Leads :: int
  SMB_Leads :: int
  Estimated_Revenue :: int
  Target_Progress :: rat
  Gap_to_Target :: rat

record funnel =
  funnel_stages :: "stage_row list"
  funnel_summary :: summary
  categorized_leads :: "LeadCategory list"

definition count_segment :: "segment \<Rightarrow> LeadCategory list \<Rightarrow> int" where
  "count_segment s ls = int (length (filter (\<lambda>l. segment l = s) ls))"

definition categorize_all :: "(string \<times> lead list) list \<Rightarrow> LeadCategory list" where
  "categorize_all leads_by_partner =
     concat (map (\<lambda>(p, leads). map (\<lambda>lead. categorize_lead lead p) leads) leads_by_partner)"

definition next_count :: "transition \<Rightarrow> segment \<Rightarrow> int \<Rightarrow> int" where
  "next_count t s n = py_round (py_mul_int_float n (CONVERSION_RATES t s))"

definition row_of :: "FunnelMetrics \<Rightarrow> stage_row" where
  "row_of m = \<lparr>row_Stage = stage m, row_Enterprise = enterprise_count m,
     row_Midmarket = midmarket_count m, row_SMB = smb_count m, row_Total = total_count m,
     row_Conversion_Rate = conversion_rate m, row_Estimated_Revenue = estimated_revenue m\<rparr>"

definition generate_funnel :: "(string \<times> lead list) list \<Rightarrow> rat \<Rightarrow> error + funnel" where
  "generate_funnel leads_by_partner current_quarter_target =
    (let cls = categorize_all leads_by_partner;
         enterprise_count' = count_segment Enterprise cls;
         midmarket_count' = count_segment Midmarket cls;
         smb_count' = count_segment SMB cls;
         total_leads = int (length cls);
         leads_stage = \<lparr>stage = ''Leads'', enterprise_count = enterprise_count',
           midmarket_count = midmarket_count', smb_count = smb_count',
           total_count = total_leads, estimated_acv = 0, conversion_rate = 1,
           estimated_revenue = 0\<rparr>;
         qualified_enterprise = next_count Leads_Qualified Enterprise enterprise_count';
         qualified_midmarket = next_count Leads_Qualified Midmarket midmarket_count';
         qualified_smb = next_count Leads_Qualified SMB smb_count';
         qualified_total = qualified_enterprise + qualified_midmarket + qualified_smb
     in then_res (if 0 < total_leads then py_truediv (of_int qualified_total) (of_int total_leads)
                  else Inr 0) (\<lambda>qualified_rate.
    (let qualified_stage = \<lparr>stage = ''Qualified'', enterprise_count = qualified_enterprise,
           midmarket_count = qualified_midmarket, smb_count = qualified_smb,
           total_count = qualified_total, estimated_acv = 0, conversion_rate = qualified_rate,
           estimated_revenue = 0\<rparr>;
         opp_enterprise = next_count Qualified_Opportunity Enterprise qualified_enterprise;
         opp_midmarket = next_count Qualified_Opportunity Midmarket qualified_midmarket;
         opp_smb = next_count Qualified_Opportunity SMB qualified_smb;
         opp_total = opp_enterprise + opp_midmarket + opp_smb
     in then_res (if 0 < qualified_total then py_truediv (of_int opp_total) (of_int qualified_total)
                  else Inr 0) (\<lambda>opp_rate.
    (let opportunities_stage = \<lparr>stage = ''Opportunities'', enterprise_count = opp_enterprise,
           midmarket_count = opp_midmarket, smb_count = opp_smb,
           total_count = opp_total, estimated_acv = 0, conversion_rate = opp_rate,
           estimated_revenue = 0\<rparr>;
         won_enterprise = next_count Opportunity_Closed_Won Enterprise opp_enterprise;
         won_midmarket = next_count Opportunity_Closed_Won Midmarket opp_midmarket;
         won_smb = next_count Opportunity_Closed_Won SMB opp_smb;
         won_total = won_enterprise + won_midmarket + won_smb;
         estimated_revenue' =
           won_enterprise * ESTIMATED_ACV Enterprise +
           won_midmarket * ESTIMATED_ACV Midmarket +
           won_smb * ESTIMATED_ACV SMB
     in then_res (if 0 < opp_total then py_truediv (of_int won_total) (of_int opp_total)
                  else Inr 0) (\<lambda>won_rate.
    (let closed_won_stage = \<lparr>stage = ''Closed Won'', enterprise_count = won_enterprise,
           midmarket_count = won_midmarket, smb_count = won_smb,
           total_count = won_total, estimated_acv = of_int (ESTIMATED_ACV Enterprise),
           conversion_rate = won_rate, estimated_revenue = estimated_revenue'\<rparr>
     in then_res (if 0 < current_quarter_target
                  then then_res (py_truediv (of_int estimated_revenue') current_quarter_target)
                         (\<lambda>q. Inr (to_double (q * 100)))
                  else Inr 0) (\<lambda>target_progress.
        Inr \<lparr>funnel_stages =
               [row_of leads_stage, row_of qualified_stage,
                row_of opportunities_stage, row_of closed_won_stage],
             funnel_summary =
               \<lparr>Current_Quarter_Target = current_quarter_target,
                Total_Leads = total_leads,
                Enterprise_Leads = enterprise_count',
                Midmarket_Leads = midmarket_count',
                SMB_Leads = smb_count',
                Estimated_Revenue = estimated_revenue',
                Target_Progress = target_progress,
                Gap_to_Target = to_double (current_quarter_target - to_double (of_int estimated_revenue'))\<rparr>,
             categorized_leads = cls\<rparr>))))))))"

text \<open>The count a stage row holds for a segment (\<open>row[segment]\<close>).\<close>

fun seg_count :: "segment \<Rightarrow> stage_row \<Rightarrow> int" where
  "seg_count Enterprise r = row_Enterprise r"
| "seg_count Midmarket r = row_Midmarket r"
| "seg_count SMB r = row_SMB r"

section \<open>coda\_updater.py and update\_coda\_dashboard\_daily.py\<close>

text \<open>
  The remote service is a state machine \<open>srv\<close> over a state \<open>'w\<close>, given as a parameter:
  every request of the \<open>requests\<close> library, and every \<open>time.sleep\<close>, is one step of it. A
  request either raises (no response, with the message of the exception) or gets a response
  with a status code, a reason phrase and a body. The body either cannot be decoded by
  \<open>response.json()\<close> (with the message of the decoder) or is an object, of which the
  \<open>items\<close> and the \<open>nextPageToken\<close> are read, each of which may be absent. Printing is
  not modelled.
\<close>

type_synonym url = string
type_synonym headers = "(string \<times> string) list"

datatype cell = Text string | Number rat | Integer int

record payload =
  cells :: "(string option \<times> cell) list"
  keyColumns :: "string list option"

datatype request =
    Get url headers "(string \<times> string) list"
  | Post url headers payload
  | Delete url headers

datatype action = Http request | Sleep nat

record item =
  item_id :: "string option"
  item_name :: "string option"

datatype body = NotJson string | Object "item list option" "string option"

record response =
  status_code :: nat
  reason :: string
  json :: body

datatype outcome = Raises string | Response response

type_synonym 'w server = "'w \<Rightarrow> action \<Rightarrow> outcome \<times> 'w"

text \<open>The decimal digits of a status code, as \<open>str\<close> prints it.\<close>

definition digit_char :: "nat \<Rightarrow> char" where
  "digit_char n = ''0123456789'' ! n"

fun show_nat :: "nat \<Rightarrow> string" where
  "show_nat n = (if n < 10 then [digit_char n] else show_nat (n div 10) @ [digit_char (n mod 10)])"

declare show_nat.simps [simp del]

text \<open>
  \<open>response.raise_for_status()\<close> of the \<open>requests\<close> library: an \<open>HTTPError\<close> for a status
  from 400 to 599, with the message that the library builds.
\<close>

definition raise_for_status :: "url \<Rightarrow> response \<Rightarrow> error option" where
  "raise_for_status u r =
     (if 400 \<le> status_code r \<and> status_code r < 500
      then Some (HTTPError (show_nat (status_code r) @ '' Client Error: '' @ reason r @ '' for url: '' @ u))
      else if 500 \<le> status_code r \<and> status_code r < 600
      then Some (HTTPError (show_nat (status_code r) @ '' Server Error: '' @ reason r @ '' for url: '' @ u))
      else None)"

text \<open>The truth value of an optional string: \<open>None\<close> and the empty string are false.\<close>

fun truthy :: "string option \<Rightarrow> bool" where
  "truthy None = False"
| "truthy (Some s) = (s \<noteq> [])"

definition py_or :: "string option \<Rightarrow> string option \<Rightarrow> string option" where
  "py_or a b = (if truthy a then a else b)"

record CodaUpdater =
  api_token :: string
  doc_id :: "string option"
  base_url :: string
  default_table_id :: "string option"

definition get_headers :: "CodaUpdater \<Rightarrow> headers" where
  "get_headers self = [(''Authorization'', ''Bearer '' @ api_token self),
                       (''Content-Type'', ''application/json'')]"

text \<open>
  \<^verbatim>\<open>doc_id = doc_id or self.doc_id\<close> followed by
  \<^verbatim>\<open>if not doc_id: raise ValueError("Document ID required")\<close>.
\<close>

definition require_doc_id :: "CodaUpdater \<Rightarrow> string option \<Rightarrow> error + string" where
  "require_doc_id self d =
     (case py_or d (doc_id self) of
        None \<Rightarrow> Inl (ValueError ''Document ID required'')
      | Some s \<Rightarrow> if s = [] then Inl (ValueError ''Document ID required'') else Inr s)"

text \<open>
  The \<^verbatim>\<open>while True\<close> loop of \<open>list_tables\<close>. The service may send a continuation token
  with every page, so the loop need not end: the result \<open>None\<close> is the loop that runs for
  ever, \<open>Some\<close> is a return or a raised exception together with the state reached.
\<close>

partial_function (option) list_tables_loop ::
  "'w server \<Rightarrow> url \<Rightarrow> headers \<Rightarrow> (string \<times> string) list \<Rightarrow> item list \<Rightarrow> string option
     \<Rightarrow> 'w \<Rightarrow> ((error + item list) \<times> 'w) option" where
  "list_tables_loop srv u h params all_items page_token w =
     (let params' = (case page_token of
                       Some t \<Rightarrow> if t \<noteq> [] then AList.update ''pageToken'' t params else params
                     | None \<Rightarrow> params)
      in case srv w (Http (Get u h params')) of
           (Raises m, w') \<Rightarrow> Some (Inl (RequestException m), w')
         | (Response r, w') \<Rightarrow>
             (case raise_for_status u r of
                Some e \<Rightarrow> Some (Inl e, w')
              | None \<Rightarrow>
                 (case json r of
                    NotJson m \<Rightarrow> Some (Inl (JSONDecodeError m), w')
                  | Object items next_token \<Rightarrow>
                      (let all_items' = all_items @ (case items of None \<Rightarrow> [] | Some xs \<Rightarrow> xs)
                       in if truthy next_token
                          then list_tables_loop srv u h params' all_items' next_token w'
                          else Some (Inr all_items', w')))))"

definition list_tables ::
  "'w server \<Rightarrow> CodaUpdater \<Rightarrow> string option \<Rightarrow> bool \<Rightarrow> 'w \<Rightarrow> ((error + item list) \<times> 'w) option" where
  "list_tables srv self d include_views w =
     (case require_doc_id self d of
        Inl e \<Rightarrow> Some (Inl e, w)
      | Inr doc \<Rightarrow>
          (let u = base_url self @ ''/docs/'' @ doc @ ''/tables'';
               params = (if include_views
                         then [(''limit'', ''100''), (''tableTypes'', ''table,view'')]
                         else [(''limit'', ''100'')])
           in list_tables_loop srv u (get_headers self) params [] None w))"

definition list_rows ::
  "'w server \<Rightarrow> CodaUpdater \<Rightarrow> string \<Rightarrow> string option \<Rightarrow> 'w \<Rightarrow> (error + body) \<times> 'w" where
  "list_rows srv self table_id d w =
     (case require_doc_id self d of
        Inl e \<Rightarrow> (Inl e, w)
      | Inr doc \<Rightarrow>
          (let u = base_url self @ ''/docs/'' @ doc @ ''/tables/'' @ table_id @ ''/rows''
           in case srv w (Http (Get u (get_headers self) [])) of
                (Raises m, w') \<Rightarrow> (Inl (RequestException m), w')
              | (Response r, w') \<Rightarrow>
                  (case raise_for_status u r of
                     Some e \<Rightarrow> (Inl e, w')
                   | None \<Rightarrow>
                      (case json r of
                         NotJson m \<Rightarrow> (Inl (JSONDecodeError m), w')
                       | Object items t \<Rightarrow> (Inr (Object items t), w')))))"

text \<open>\<open>data.get('items', [])\<close> on a decoded body.\<close>

fun items_of :: "body \<Rightarrow> item list" where
  "items_of (NotJson m) = []"
| "items_of (Object None t) = []"
| "items_of (Object (Some xs) t) = xs"

definition upsert_row ::
  "'w server \<Rightarrow> CodaUpdater \<Rightarrow> string \<Rightarrow> (string \<times> cell) list \<Rightarrow> string list \<Rightarrow> string option
     \<Rightarrow> 'w \<Rightarrow> (error + body) \<times> 'w" where
  "upsert_row srv self table_id row_data key_columns d w =
     (case require_doc_id self d of
        Inl e \<Rightarrow> (Inl e, w)
      | Inr doc \<Rightarrow>
          (let u = base_url self @ ''/docs/'' @ doc @ ''/tables/'' @ table_id @ ''/rows'';
               cs = map (\<lambda>(col_name, v). (Some col_name, v)) row_data;
               p = \<lparr>cells = cs, keyColumns = Some key_columns\<rparr>
           in case srv w (Http (Post u (get_headers self) p)) of
                (Raises m, w') \<Rightarrow> (Inl (RequestException m), w')
              | (Response r, w') \<Rightarrow>
                  (case raise_for_status u r of
                     Some e \<Rightarrow> (Inl e, w')
                   | None \<Rightarrow>
                      (case json r of
                         NotJson m \<Rightarrow> (Inl (JSONDecodeError m), w')
                       | Object items t \<Rightarrow> (Inr (Object items t), w')))))"

text \<open>The loop of \<open>delete_rows\<close>: one DELETE per row id, every exception swallowed.\<close>

fun delete_each :: "'w server \<Rightarrow> url \<Rightarrow> headers \<Rightarrow> string list \<Rightarrow> int \<Rightarrow> 'w \<Rightarrow> int \<times> 'w" where
  "delete_each srv u h [] deleted_count w = (deleted_count, w)"
| "delete_each srv u h (row_id # row_ids) deleted_count w =
     (case srv w (Http (Delete (u @ ''/'' @ row_id) h)) of
        (Raises m, w') \<Rightarrow> delete_each srv u h row_ids deleted_count w'
      | (Response r, w') \<Rightarrow>
          delete_each srv u h row_ids
            (if status_code r = 200 \<or> status_code r = 204 then deleted_count + 1 else deleted_count) w')"

definition delete_rows ::
  "'w server \<Rightarrow> CodaUpdater \<Rightarrow> string \<Rightarrow> string list \<Rightarrow> string option \<Rightarrow> 'w \<Rightarrow> (error + bool) \<times> 'w" where
  "delete_rows srv self table_id row_ids d w =
     (case require_doc_id self d of
        Inl e \<Rightarrow> (Inl e, w)
      | Inr doc \<Rightarrow>
          if row_ids = [] then (Inr True, w)
          else (let u = base_url self @ ''/docs/'' @ doc @ ''/tables/'' @ table_id @ ''/rows'';
                    (deleted_count, w') = delete_each srv u (get_headers self) row_ids 0 w
                in (Inr (deleted_count = int (length row_ids)), w')))"

text \<open>\<open>str(e)\<close> of an exception.\<close>

fun error_str :: "error \<Rightarrow> string" where
  "error_str ZeroDivisionError = ''division by zero''"
| "error_str (ValueError m) = m"
| "error_str (HTTPError m) = m"
| "error_str (RequestException m) = m"
| "error_str (JSONDecodeError m) = m"

text \<open>
  \<open>update_accounts_table\<close>, lines 343 to 363: the batch of upserts over \<open>account_dicts\<close>
  and the report. Each element of \<open>account_dicts\<close> is the dictionary built at lines 325
  to 340, whose first key is \<open>"Account ID"\<close> with a string value.
\<close>

record account_row =
  Account_ID :: string
  other_columns :: "(string \<times> cell) list"

definition row_data_of :: "account_row \<Rightarrow> (string \<times> cell) list" where
  "row_data_of a = (''Account ID'', Text (Account_ID a)) # other_columns a"

record report =
  updated :: int
  total :: int
  errors :: "string list"

fun upsert_accounts ::
  "'w server \<Rightarrow> CodaUpdater \<Rightarrow> string \<Rightarrow> string \<Rightarrow> account_row list \<Rightarrow> int \<Rightarrow> string list \<Rightarrow> 'w
     \<Rightarrow> (int \<times> string list) \<times> 'w" where
  "upsert_accounts srv self table_id doc [] updated_count errs w = ((updated_count, errs), w)"
| "upsert_accounts srv self table_id doc (a # rest) updated_count errs w =
     (case upsert_row srv self table_id (row_data_of a) [''Account ID''] (Some doc) w of
        (Inr b, w') \<Rightarrow> upsert_accounts srv self table_id doc rest (updated_count + 1) errs w'
      | (Inl e, w') \<Rightarrow>
          upsert_accounts srv self table_id doc rest updated_count
            (errs @ [''Account '' @ Account_ID a @ '': '' @ error_str e]) w')"

definition update_accounts_table_rows ::
  "'w server \<Rightarrow> CodaUpdater \<Rightarrow> string \<Rightarrow> string \<Rightarrow> account_row list \<Rightarrow> 'w \<Rightarrow> report \<times> 'w" where
  "update_accounts_table_rows srv self table_id doc account_dicts w =
     (let ((updated_count, errs), w') = upsert_accounts srv self table_id doc account_dicts 0 [] w
      in (\<lparr>updated = updated_count, total = int (length account_dicts), errors = errs\<rparr>, w'))"

text \<open>
  \<open>update_executive_summary_text\<close>, lines 427 to 494: the insert of the one new row,
  the polling for its visibility and the retry over other column names.
\<close>

datatype visibility = Visible nat | Not_yet_visible

fun poll_inserted ::
  "'w server \<Rightarrow> CodaUpdater \<Rightarrow> string \<Rightarrow> string \<Rightarrow> nat \<Rightarrow> nat list \<Rightarrow> 'w \<Rightarrow> (error + visibility) \<times> 'w" where
  "poll_inserted srv self table_id doc max_retries [] w = (Inr Not_yet_visible, w)"
| "poll_inserted srv self table_id doc max_retries (retry # later) w =
     (case list_rows srv self table_id (Some doc) w of
        (Inl e, w') \<Rightarrow> (Inl e, w')
      | (Inr check_rows, w') \<Rightarrow>
          (let final_count = length (items_of check_rows)
           in if 1 \<le> final_count then (Inr (Visible final_count), w')
              else if retry < max_retries - 1
              then poll_inserted srv self table_id doc max_retries later (snd (srv w' (Sleep 2)))
              else poll_inserted srv self table_id doc max_retries later w'))"

fun try_columns :: "'w server \<Rightarrow> url \<Rightarrow> headers \<Rightarrow> string \<Rightarrow> string option list \<Rightarrow> 'w \<Rightarrow> bool \<times> 'w" where
  "try_columns srv u h summary_text [] w = (False, w)"
| "try_columns srv u h summary_text (None # cs) w = try_columns srv u h summary_text cs w"
| "try_columns srv u h summary_text (Some c # cs) w =
     (case srv w (Http (Post u h \<lparr>cells = [(Some c, Text summary_text)], keyColumns = None\<rparr>)) of
        (Raises m, w') \<Rightarrow> try_columns srv u h summary_text cs w'
      | (Response r, w') \<Rightarrow>
          if status_code r = 200 \<or> status_code r = 202 then (True, snd (srv w' (Sleep 2)))
          else try_columns srv u h summary_text cs w')"

definition update_executive_summary_text_insert ::
  "'w server \<Rightarrow> CodaUpdater \<Rightarrow> string \<Rightarrow> string \<Rightarrow> string option \<Rightarrow> string option \<Rightarrow> string
     \<Rightarrow> 'w \<Rightarrow> bool \<times> 'w" where
  "update_executive_summary_text_insert srv self doc table_id column_id column_name summary_text w =
     (let u = base_url self @ ''/docs/'' @ doc @ ''/tables/'' @ table_id @ ''/rows'';
          h = get_headers self;
          column_identifier = (if truthy column_id then column_id else column_name);
          alternatives = try_columns srv u h summary_text
            [column_id, column_name, Some ''Summary Text'', Some ''Text'', Some ''Content'',
             Some ''Summary'', Some ''Name'']
      in case srv w (Http (Post u h
                 \<lparr>cells = [(column_identifier, Text summary_text)], keyColumns = None\<rparr>)) of
           (Raises m, w1) \<Rightarrow> alternatives w1
         | (Response r, w1) \<Rightarrow>
             if status_code r = 200 \<or> status_code r = 202
             then (case poll_inserted srv self table_id doc 8 [0..<8] (snd (srv w1 (Sleep 5))) of
                     (Inl e, w2) \<Rightarrow> alternatives w2
                   | (Inr v, w2) \<Rightarrow> (True, w2))
             else (case raise_for_status u r of
                     Some e \<Rightarrow> alternatives w1
                   | None \<Rightarrow> (False, w1)))"

section \<open>parse\_coda\_url\<close>

text \<open>
  The two patterns are matched the way Python's \<open>re\<close> matches them: a backtracking search
  in which \<open>+\<close> and \<open>?\<close> are greedy, written with continuations. \<open>many1 c k\<close> is a
  character class under \<open>+\<close>: it takes the longest run first and gives back one character at
  a time while the rest of the pattern \<open>k\<close> fails; \<open>k\<close> receives the text matched.
\<close>

definition is_alnum :: "char \<Rightarrow> bool" where
  "is_alnum c = (let n = (of_char c :: nat)
     in (65 \<le> n \<and> n \<le> 90) \<or> (97 \<le> n \<and> n \<le> 122) \<or> (48 \<le> n \<and> n \<le> 57))"

definition lit :: "string \<Rightarrow> (string \<Rightarrow> 'a option) \<Rightarrow> string \<Rightarrow> 'a option" where
  "lit p k s = (if take (length p) s = p then k (drop (length p) s) else None)"

fun many1 :: "(char \<Rightarrow> bool) \<Rightarrow> (string \<Rightarrow> string \<Rightarrow> 'a option) \<Rightarrow> string \<Rightarrow> 'a option" where
  "many1 c k [] = None"
| "many1 c k (x # xs) =
     (if c x then (case many1 c (\<lambda>m. k (x # m)) xs of Some r \<Rightarrow> Some r | None \<Rightarrow> k [x] xs)
      else None)"

definition opt ::
  "((string \<Rightarrow> 'a option) \<Rightarrow> string \<Rightarrow> 'a option) \<Rightarrow> (string \<Rightarrow> 'a option) \<Rightarrow> string \<Rightarrow> 'a option" where
  "opt p k s = (case p k s of Some r \<Rightarrow> Some r | None \<Rightarrow> k s)"

text \<open>\<open>re.search\<close>: the leftmost position at which the pattern matches.\<close>

fun search :: "(string \<Rightarrow> 'a option) \<Rightarrow> string \<Rightarrow> 'a option" where
  "search m [] = m []"
| "search m (x # xs) = (case m (x # xs) of Some r \<Rightarrow> Some r | None \<Rightarrow> search m xs)"

text \<open>\<^verbatim>\<open>/d/[^/]+_d?([A-Za-z0-9]+)/(?:[^#]+_)?([A-Za-z0-9]+)\<close>\<close>

definition doc_table_pattern :: "string \<Rightarrow> (string \<times> string) option" where
  "doc_table_pattern =
     lit ''/d/'' (many1 (\<lambda>c. c \<noteq> CHR ''/'') (\<lambda>m0.
       lit ''_'' (opt (lit ''d'') (many1 is_alnum (\<lambda>g1.
         lit ''/'' (opt (\<lambda>k. many1 (\<lambda>c. c \<noteq> CHR ''#'') (\<lambda>m1. lit ''_'' k))
           (many1 is_alnum (\<lambda>g2 rest. Some (g1, g2)))))))))"

text \<open>\<^verbatim>\<open>/d/[^/]+_d?([A-Za-z0-9]+)\<close>\<close>

definition doc_pattern :: "string \<Rightarrow> string option" where
  "doc_pattern =
     lit ''/d/'' (many1 (\<lambda>c. c \<noteq> CHR ''/'') (\<lambda>m0.
       lit ''_'' (opt (lit ''d'') (many1 is_alnum (\<lambda>g1 rest. Some g1)))))"

definition parse_coda_url :: "string \<Rightarrow> error + string \<times> string option" where
  "parse_coda_url u =
     (case search doc_table_pattern u of
        Some (g1, g2) \<Rightarrow> Inr (g1, if g2 \<noteq> [] then Some g2 else None)
      | None \<Rightarrow>
         (case search doc_pattern u of
            Some g1 \<Rightarrow> Inr (g1, None)
          | None \<Rightarrow> Inl (ValueError (''Could not parse Coda URL: '' @ u))))"

section \<open>Notions used in the statements\<close>

text \<open>The conversion rates as configured: the decimal numbers written in the table.\<close>

fun configured_rate :: "transition \<Rightarrow> segment \<Rightarrow> rat" where
  "configured_rate Leads_Qualified Enterprise = 40 / 100"
| "configured_rate Leads_Qualified Midmarket = 30 / 100"
| "configured_rate Leads_Qualified SMB = 20 / 100"
| "configured_rate Qualified_Opportunity Enterprise = 60 / 100"
| "configured_rate Qualified_Opportunity Midmarket = 50 / 100"
| "configured_rate Qualified_Opportunity SMB = 40 / 100"
| "configured_rate Opportunity_Closed_Won Enterprise = 30 / 100"
| "configured_rate Opportunity_Closed_Won Midmarket = 25 / 100"
| "configured_rate Opportunity_Closed_Won SMB = 20 / 100"

text \<open>
  Arithmetic rounding, ties to even: \<open>k\<close> is the integer nearest to \<open>x\<close>, and the even one of
  the two when \<open>x\<close> lies half way between two integers.
\<close>

definition rounds_half_even :: "rat \<Rightarrow> int \<Rightarrow> bool" where
  "rounds_half_even x k = (\<bar>x - of_int k\<bar> < 1 / 2 \<or> (\<bar>x - of_int k\<bar> = 1 / 2 \<and> even k))"

text \<open>Issuing a list of actions one after the other: the outcomes, and the state reached.\<close>

fun issue :: "'w server \<Rightarrow> action list \<Rightarrow> 'w \<Rightarrow> outcome list \<times> 'w" where
  "issue srv [] w = ([], w)"
| "issue srv (a # as) w =
     (case srv w a of (out, w') \<Rightarrow> (case issue srv as w' of (outs, w'') \<Rightarrow> (out # outs, w'')))"

text \<open>A DELETE that \<open>delete_rows\<close> counts: a response with status 200 or 204.\<close>

fun deleted :: "outcome \<Rightarrow> bool" where
  "deleted (Raises m) = False"
| "deleted (Response r) = (status_code r = 200 \<or> status_code r = 204)"

definition rows_url :: "CodaUpdater \<Rightarrow> string \<Rightarrow> string \<Rightarrow> url" where
  "rows_url self doc table_id = base_url self @ ''/docs/'' @ doc @ ''/tables/'' @ table_id @ ''/rows''"

definition delete_request :: "CodaUpdater \<Rightarrow> string \<Rightarrow> string \<Rightarrow> string \<Rightarrow> action" where
  "delete_request self doc table_id row_id =
     Http (Delete (rows_url self doc table_id @ ''/'' @ row_id) (get_headers self))"

text \<open>A service that accepts everything: status 204 for a DELETE, 200 otherwise.\<close>

fun accepting :: "unit server" where
  "accepting w (Http (Delete u h)) = (Response \<lparr>status_code = 204, reason = ''No Content'', json = NotJson ''''\<rparr>, w)"
| "accepting w a = (Response \<lparr>status_code = 200, reason = ''OK'', json = Object None None\<rparr>, w)"

definition updater1 :: CodaUpdater where
  "updater1 = \<lparr>api_token = ''token'', doc_id = Some ''G4dJxxWn4e'',
     base_url = ''https://coda.io/apis/v1'', default_table_id = None\<rparr>"

text \<open>The POST that \<open>upsert_row\<close> sends for one account row, keyed on \<open>Account ID\<close>.\<close>

definition upsert_request :: "CodaUpdater \<Rightarrow> string \<Rightarrow> string \<Rightarrow> account_row \<Rightarrow> action" where
  "upsert_request self doc table_id a =
     Http (Post (rows_url self doc table_id) (get_headers self)
       \<lparr>cells = map (\<lambda>(col_name, v). (Some col_name, v)) (row_data_of a),
        keyColumns = Some [''Account ID'']\<rparr>)"

text \<open>What \<open>upsert_row\<close> raises on an outcome of its POST, if anything.\<close>

fun upsert_failure :: "url \<Rightarrow> outcome \<Rightarrow> error option" where
  "upsert_failure u (Raises m) = Some (RequestException m)"
| "upsert_failure u (Response r) =
     (case raise_for_status u r of
        Some e \<Rightarrow> Some e
      | None \<Rightarrow> (case json r of NotJson m \<Rightarrow> Some (JSONDecodeError m) | Object items t \<Rightarrow> None))"

text \<open>The entries of \<open>errors\<close>: one for each row whose upsert failed, in the order of the rows.\<close>

fun error_entries :: "url \<Rightarrow> account_row list \<Rightarrow> outcome list \<Rightarrow> string list" where
  "error_entries u (a # rest) (out # outs) =
     (case upsert_failure u out of
        Some e \<Rightarrow> (''Account '' @ Account_ID a @ '': '' @ error_str e) # error_entries u rest outs
      | None \<Rightarrow> error_entries u rest outs)"
| "error_entries u rest outs = []"

fun count_ok :: "url \<Rightarrow> outcome list \<Rightarrow> int" where
  "count_ok u [] = 0"
| "count_ok u (out # outs) = (if upsert_failure u out = None then 1 else 0) + count_ok u outs"

text \<open>A service whose state counts the requests: the third one fails with status 500.\<close>

fun third_fails :: "nat server" where
  "third_fails n a =
     (if n = 2
      then (Response \<lparr>status_code = 500, reason = ''Internal Server Error'', json = NotJson ''''\<rparr>, Suc n)
      else (Response \<lparr>status_code = 200, reason = ''OK'', json = Object None None\<rparr>, Suc n))"

definition acct :: "string \<Rightarrow> account_row" where
  "acct k = \<lparr>Account_ID = k, other_columns = [(''Partner'', Text ''Pyxis'')]\<rparr>"

text \<open>
  Following the pages, in the words of the specification: a request is made with the
  parameters; its response is a page; when the page carries a continuation token the same is
  done again with the token as \<open>pageToken\<close>, and otherwise the pages end. \<open>paged\<close> relates the
  state before the first request to the items of the pages, in order, and to the state after
  the last response.
\<close>

inductive paged ::
  "'w server \<Rightarrow> url \<Rightarrow> headers \<Rightarrow> (string \<times> string) list \<Rightarrow> 'w \<Rightarrow> item list list \<Rightarrow> 'w \<Rightarrow> bool"
  for srv u h where
  last_page:
    "srv w (Http (Get u h params)) = (Response r, w') \<Longrightarrow> raise_for_status u r = None \<Longrightarrow>
     json r = Object items t \<Longrightarrow> \<not> truthy t \<Longrightarrow>
     paged srv u h params w [items_of (json r)] w'"
| next_page:
    "srv w (Http (Get u h params)) = (Response r, w1) \<Longrightarrow> raise_for_status u r = None \<Longrightarrow>
     json r = Object items (Some t) \<Longrightarrow> t \<noteq> [] \<Longrightarrow>
     paged srv u h (AList.update ''pageToken'' t params) w1 pages w' \<Longrightarrow>
     paged srv u h params w (items_of (json r) # pages) w'"

definition tables_url :: "CodaUpdater \<Rightarrow> string \<Rightarrow> url" where
  "tables_url self doc = base_url self @ ''/docs/'' @ doc @ ''/tables''"

definition tables_params :: "bool \<Rightarrow> (string \<times> string) list" where
  "tables_params include_views =
     (if include_views then [(''limit'', ''100''), (''tableTypes'', ''table,view'')]
      else [(''limit'', ''100'')])"

text \<open>The parameters of the request that the loop makes for a given \<open>page_token\<close>.\<close>

fun with_token :: "string option \<Rightarrow> (string \<times> string) list \<Rightarrow> (string \<times> string) list" where
  "with_token None params = params"
| "with_token (Some t) params = (if t \<noteq> [] then AList.update ''pageToken'' t params else params)"

text \<open>A service with three pages of tables, chained by the tokens \<open>p2\<close> and \<open>p3\<close>.\<close>

definition tbl :: "string \<Rightarrow> string \<Rightarrow> item" where
  "tbl i n = \<lparr>item_id = Some i, item_name = Some n\<rparr>"

fun three_pages :: "nat server" where
  "three_pages n (Http (Get u h params)) =
     (case map_of params ''pageToken'' of
        None \<Rightarrow> (Response \<lparr>status_code = 200, reason = ''OK'',
                    json = Object (Some [tbl ''grid-1'' ''Last Updated'', tbl ''grid-2'' ''Executive Summary''])
                             (Some ''p2'')\<rparr>, Suc n)
      | Some t \<Rightarrow>
          if t = ''p2''
          then (Response \<lparr>status_code = 200, reason = ''OK'',
                    json = Object (Some [tbl ''grid-3'' ''Upmarket Sales Funnel'']) (Some ''p3'')\<rparr>, Suc n)
          else (Response \<lparr>status_code = 200, reason = ''OK'',
                    json = Object (Some [tbl ''grid-4'' ''Funnel Summary KPIs'']) None\<rparr>, Suc n))"
| "three_pages n a = (Raises ''unexpected request'', n)"




text \<open>
  A service that accepts the first insert (202), fails every listing of the rows with status
  429 and rejects every later insert with status 400. Its state tells whether an insert was
  accepted.
\<close>

fun polls_fail :: "bool server" where
  "polls_fail accepted (Http (Post u h p)) =
     (if accepted then (Response \<lparr>status_code = 400, reason = ''Bad Request'', json = NotJson ''''\<rparr>, True)
      else (Response \<lparr>status_code = 202, reason = ''Accepted'', json = Object None None\<rparr>, True))"
| "polls_fail accepted (Http (Get u h params)) =
     (Response \<lparr>status_code = 429, reason = ''Too Many Requests'', json = NotJson ''''\<rparr>, accepted)"
| "polls_fail accepted a = (Response \<lparr>status_code = 200, reason = ''OK'', json = Object None None\<rparr>, accepted)"

text \<open>Example leads, used to evaluate the functions on concrete inputs.\<close>

definition midmarket_lead :: lead where
  "midmarket_lead = \<lparr>lead_account_id = Some ''a1'', lead_account_name = Some ''Acme'',
     lead_current_mrr = Some 500, lead_user_count = Some 3, lead_referral_arr = Some 0,
     lead_lead_score = Some 10, lead_qualification_tier = Some ''Warm''\<rparr>"

definition smb_lead :: lead where
  "smb_lead = \<lparr>lead_account_id = Some ''a2'', lead_account_name = None,
     lead_current_mrr = Some 20, lead_user_count = Some 3, lead_referral_arr = None,
     lead_lead_score = Some 10, lead_qualification_tier = None\<rparr>"

definition hot_lead :: lead where
  "hot_lead = smb_lead\<lparr>lead_lead_score := Some 85\<rparr>"

section \<open>Facts about rounding\<close>

lemma expo_bounds:
  assumes "x \<noteq> 0"
  shows "power_int 2 (expo x) \<le> \<bar>x\<bar>" and "\<bar>x\<bar> < power_int 2 (expo x + 1)"
proof -
  obtain p q where pq: "quotient_of \<bar>x\<bar> = (p, q)" by (cases "quotient_of \<bar>x\<bar>")
  have q: "0 < q" using pq quotient_of_denom_pos by blast
  have xa: "\<bar>x\<bar> = of_int p / of_int q" using pq quotient_of_div by blast
  have "0 < \<bar>x\<bar>" using assms by simp
  then have "0 < (of_int p :: rat) / of_int q" using xa by simp
  then have p: "0 < p" using q by (simp add: zero_less_divide_iff)
  define d where "d = bitlen p - bitlen q"
  define P :: rat where "P = power_int 2 (bitlen p)"
  define Q :: rat where "Q = power_int 2 (bitlen q)"
  have bp: "2 ^ nat (bitlen p - 1) \<le> p" "p < 2 ^ nat (bitlen p)" using bitlen_bounds[OF p] by auto
  have bq: "2 ^ nat (bitlen q - 1) \<le> q" "q < 2 ^ nat (bitlen q)" using bitlen_bounds[OF q] by auto
  have bp1: "1 \<le> bitlen p" and bq1: "1 \<le> bitlen q"
    using p q bitlen_eq_zero_iff[of p] bitlen_eq_zero_iff[of q] bitlen_nonneg[of p] bitlen_nonneg[of q]
    by linarith+
  have Ppos: "0 < P" and Qpos: "0 < Q" by (simp_all add: P_def Q_def)
  have Pn: "P = 2 ^ nat (bitlen p)" using bp1 by (simp add: P_def power_int_def)
  have Qn: "Q = 2 ^ nat (bitlen q)" using bq1 by (simp add: Q_def power_int_def)
  have Ph: "P / 2 = 2 ^ nat (bitlen p - 1)"
  proof -
    have "nat (bitlen p) = Suc (nat (bitlen p - 1))" using bp1 by simp
    then show ?thesis by (simp add: Pn)
  qed
  have Qh: "Q / 2 = 2 ^ nat (bitlen q - 1)"
  proof -
    have "nat (bitlen q) = Suc (nat (bitlen q - 1))" using bq1 by simp
    then show ?thesis by (simp add: Qn)
  qed
  have pP: "of_int p < P" 
  proof -
    have "(of_int p :: rat) < of_int (2 ^ nat (bitlen p))" using bp(2) by (simp only: of_int_less_iff)
    then show ?thesis by (simp add: Pn)
  qed
  have Pp: "P / 2 \<le> of_int p"
  proof -
    have "(of_int (2 ^ nat (bitlen p - 1)) :: rat) \<le> of_int p" using bp(1) by (simp only: of_int_le_iff)
    then show ?thesis by (simp add: Ph)
  qed
  have qQ: "of_int q < Q" 
  proof -
    have "(of_int q :: rat) < of_int (2 ^ nat (bitlen q))" using bq(2) by (simp only: of_int_less_iff)
    then show ?thesis by (simp add: Qn)
  qed
  have Qq: "Q / 2 \<le> of_int q"
  proof -
    have "(of_int (2 ^ nat (bitlen q - 1)) :: rat) \<le> of_int q" using bq(1) by (simp only: of_int_le_iff)
    then show ?thesis by (simp add: Qh)
  qed
  have qr: "0 < (of_int q :: rat)" using q by simp
  have pr: "0 < (of_int p :: rat)" using p by simp
  have D: "power_int 2 d = P / Q" by (simp add: d_def P_def Q_def power_int_diff)
  have D1: "power_int 2 (d + 1) = 2 * (P / Q)" using D by (simp add: power_int_add)
  have D2: "power_int 2 (d - 1) = (P / Q) / 2" using D by (simp add: power_int_diff)
  have up: "\<bar>x\<bar> < 2 * (P / Q)"
  proof -
    have "of_int p * Q < P * (2 * of_int q)"
    proof -
      have "of_int p * Q < P * Q" using pP Qpos by simp
      also have "\<dots> \<le> P * (2 * of_int q)" using Qq Ppos by simp
      finally show ?thesis .
    qed
    then have "of_int p / of_int q < 2 * P / Q" using qr Qpos by (simp add: field_simps)
    then show ?thesis using xa by simp
  qed
  have lo: "(P / Q) / 2 \<le> \<bar>x\<bar>"
  proof -
    have "P * of_int q \<le> (2 * of_int p) * Q"
    proof -
      have "P * of_int q \<le> P * Q" using qQ Ppos by simp
      also have "\<dots> \<le> (2 * of_int p) * Q" using Pp Qpos by simp
      finally show ?thesis .
    qed
    then have "P / Q / 2 \<le> of_int p / of_int q" using qr Qpos by (simp add: field_simps)
    then show ?thesis using xa by simp
  qed
  have E: "expo x = (if power_int 2 d \<le> \<bar>x\<bar> then d else d - 1)"
    by (simp add: expo_def pq d_def Let_def)
  show "power_int 2 (expo x) \<le> \<bar>x\<bar>" using lo D2 by (simp add: E)
  show "\<bar>x\<bar> < power_int 2 (expo x + 1)" using up D1 by (auto simp: E)
qed


lemma py_round_err: "\<bar>of_int (py_round x) - x\<bar> \<le> 1/2"
proof -
  have "of_int \<lfloor>x\<rfloor> \<le> x" "x < of_int \<lfloor>x\<rfloor> + 1" by linarith+
  then show ?thesis
    by (auto simp: py_round_def Let_def abs_le_iff)
qed

lemma py_round_of_int: "py_round (of_int k) = k"
  by (simp add: py_round_def)

lemma py_round_nonneg: "0 \<le> x \<Longrightarrow> 0 \<le> py_round x"
  by (auto simp: py_round_def Let_def)

lemma py_round_unique:
  assumes "\<bar>x - of_int k\<bar> < 1/2"
  shows "py_round x = k"
proof -
  have lo: "of_int k - 1/2 < x" and hi: "x < of_int k + 1/2" using assms by linarith+
  have "of_int (k - 1) \<le> x" using lo by simp
  then have f1: "k - 1 \<le> \<lfloor>x\<rfloor>" by (simp only: le_floor_iff)
  have "x < of_int (k + 1)" using hi by simp
  then have f2: "\<lfloor>x\<rfloor> < k + 1" by (simp only: floor_less_iff)
  have f: "of_int \<lfloor>x\<rfloor> \<le> x" "x < of_int \<lfloor>x\<rfloor> + 1" by linarith+
  consider "\<lfloor>x\<rfloor> = k" | "\<lfloor>x\<rfloor> = k - 1" using f1 f2 by linarith
  then show ?thesis
  proof cases
    case 1 then show ?thesis using lo hi f by (auto simp: py_round_def Let_def)
  next
    case 2 then show ?thesis using lo hi f by (auto simp: py_round_def Let_def)
  qed
qed

lemma to_double_err:
  assumes "x \<noteq> 0"
  shows "\<bar>to_double x - x\<bar> \<le> power_int 2 (expo x - 53)"
proof -
  define u :: rat where "u = power_int 2 (expo x - 52)"
  have u: "0 < u" by (simp add: u_def)
  have td: "to_double x = of_int (py_round (x / u)) * u"
    using assms by (simp add: to_double_def u_def Let_def)
  have "\<bar>of_int (py_round (x / u)) - x / u\<bar> * u \<le> (1/2) * u"
    using py_round_err[of "x / u"] u by (simp only: mult_le_cancel_right_pos)
  moreover have "\<bar>of_int (py_round (x / u)) - x / u\<bar> * u = \<bar>of_int (py_round (x / u)) * u - x\<bar>"
  proof -
    have "\<bar>of_int (py_round (x / u)) - x / u\<bar> * u = \<bar>(of_int (py_round (x / u)) - x / u) * u\<bar>"
      using u by (simp add: abs_mult)
    also have "(of_int (py_round (x / u)) - x / u) * u = of_int (py_round (x / u)) * u - x"
      using u by (simp add: algebra_simps)
    finally show ?thesis .
  qed
  moreover have "(1/2) * u = power_int 2 (expo x - 53)"
  proof -
    have "power_int (2::rat) ((expo x - 52) - 1) = power_int 2 (expo x - 52) / power_int 2 1"
      by (rule power_int_diff) simp
    moreover have "expo x - 52 - 1 = expo x - 53" by simp
    ultimately show ?thesis by (simp add: u_def)
  qed
  ultimately show ?thesis by (simp add: td)
qed

lemma to_double_rel:
  "\<bar>to_double x - x\<bar> \<le> \<bar>x\<bar> / 2 ^ 53"
proof (cases "x = 0")
  case True then show ?thesis by (simp add: to_double_def)
next
  case False
  have "power_int (2::rat) (expo x - 53) = power_int 2 (expo x) / power_int 2 53"
    by (rule power_int_diff) simp
  also have "\<dots> = power_int 2 (expo x) / 2 ^ 53" by simp
  also have "\<dots> \<le> \<bar>x\<bar> / 2 ^ 53" using expo_bounds(1)[OF False] by (simp add: divide_right_mono)
  finally show ?thesis using to_double_err[OF False] by linarith
qed

lemma to_double_nonneg: "0 \<le> x \<Longrightarrow> 0 \<le> to_double x"
  by (auto simp: to_double_def Let_def intro!: mult_nonneg_nonneg py_round_nonneg)

lemma double_025: "to_double (25 / 100) = 1 / 4" by code_simp
lemma double_050: "to_double (50 / 100) = 1 / 2" by code_simp
lemma double_020: "to_double (20 / 100) = 3602879701896397 / 18014398509481984" by code_simp
lemma double_030: "to_double (30 / 100) = 5404319552844595 / 18014398509481984" by code_simp
lemma double_040: "to_double (40 / 100) = 3602879701896397 / 9007199254740992" by code_simp
lemma double_060: "to_double (60 / 100) = 5404319552844595 / 9007199254740992" by code_simp

lemmas rate_values = double_020 double_025 double_030 double_040 double_050 double_060

lemma rates_range: "0 \<le> CONVERSION_RATES t s \<and> CONVERSION_RATES t s \<le> 5/8"
  by (cases t; cases s) (simp_all only: CONVERSION_RATES.simps rate_values, simp_all)

lemma mul_small_le:
  assumes n: "2 \<le> n" and c: "0 \<le> c" "c \<le> 5/8"
  shows "py_round (py_mul_int_float n c) \<le> n"
proof -
  define N :: rat where "N = of_int n"
  define a where "a = to_double N"
  define p where "p = to_double (a * c)"
  have N2: "2 \<le> N" using n by (simp add: N_def)
  have "\<bar>a - N\<bar> \<le> \<bar>N\<bar> / 2 ^ 53" unfolding a_def by (rule to_double_rel)
  moreover have "\<bar>N\<bar> = N" using N2 by simp
  ultimately have a1: "a \<le> N + N / 2 ^ 53" by linarith
  have a0: "0 \<le> a" unfolding a_def using N2 by (intro to_double_nonneg) simp
  have ac0: "0 \<le> a * c" using a0 c by simp
  have "\<bar>p - a * c\<bar> \<le> \<bar>a * c\<bar> / 2 ^ 53" unfolding p_def by (rule to_double_rel)
  moreover have "\<bar>a * c\<bar> = a * c" using ac0 by simp
  ultimately have p1: "p \<le> a * c + a * c / 2 ^ 53" by linarith
  have "a * c \<le> a * (5/8)" using a0 c(2) by (rule mult_left_mono[rotated])
  then have "a * c + a * c / 2 ^ 53 \<le> a * (5/8) + a * (5/8) / 2 ^ 53" by simp
  then have p2: "p \<le> a * (5/8) + a * (5/8) / 2 ^ 53" using p1 by linarith
  have "a * (5/8) + a * (5/8) / 2 ^ 53 \<le> a * (2/3)" using a0 by simp
  moreover have "a * (2/3) \<le> (N + N / 2 ^ 53) * (2/3)" using a1 by simp
  moreover have "(N + N / 2 ^ 53) * (2/3) + 1/2 \<le> N" using N2 by (simp add: field_simps) linarith?
  ultimately have "p + 1/2 \<le> N" using p2 by linarith
  moreover have "of_int (py_round p) \<le> p + 1/2" using py_round_err[of p] by linarith
  ultimately have "(of_int (py_round p) :: rat) \<le> of_int n" by (simp add: N_def)
  then have "py_round p \<le> n" by (simp only: of_int_le_iff)
  then show ?thesis by (simp add: py_mul_int_float_def p_def a_def N_def)
qed

lemma next_count_small: "next_count t s 0 = 0 \<and> next_count t s 1 \<le> 1"
  by (cases t; cases s; hypsubst; code_simp)

lemma next_count_le: "0 \<le> n \<Longrightarrow> next_count t s n \<le> n"
proof -
  assume "0 \<le> n"
  then consider "n = 0" | "n = 1" | "2 \<le> n" by linarith
  then show ?thesis
  proof cases
    case 1 then show ?thesis using next_count_small[of t s] by simp
  next
    case 2 then show ?thesis using next_count_small[of t s] by simp
  next
    case 3 then show ?thesis unfolding next_count_def using rates_range[of t s] by (intro mul_small_le) auto
  qed
qed

lemma next_count_nonneg: "0 \<le> n \<Longrightarrow> 0 \<le> next_count t s n"
  unfolding next_count_def py_mul_int_float_def
  using rates_range[of t s] by (intro py_round_nonneg to_double_nonneg mult_nonneg_nonneg) auto

lemma expo_less:
  assumes "x \<noteq> 0" and "\<bar>x\<bar> < power_int 2 b"
  shows "expo x < b"
proof (rule ccontr)
  assume "\<not> expo x < b"
  then have "b \<le> expo x" by simp
  then have "power_int (2::rat) b \<le> power_int 2 (expo x)" by (rule power_int_increasing) simp
  then show False using expo_bounds(1)[OF assms(1)] assms(2) by linarith
qed

lemma to_double_nearest:
  assumes "x \<noteq> 0" and "\<bar>x - of_int M * power_int 2 (expo x - 52)\<bar> < power_int 2 (expo x - 52) / 2"
  shows "to_double x = of_int M * power_int 2 (expo x - 52)"
proof -
  define u :: rat where "u = power_int 2 (expo x - 52)"
  have u: "0 < u" by (simp add: u_def)
  have "\<bar>x / u - of_int M\<bar> = \<bar>x - of_int M * u\<bar> / u"
  proof -
    have "x / u - of_int M = (x - of_int M * u) / u" using u by (simp add: field_simps)
    then show ?thesis using u by (simp add: abs_divide)
  qed
  also have "\<dots> < (u / 2) / u" using assms(2) u unfolding u_def[symmetric] by (simp add: divide_strict_right_mono)
  also have "\<dots> = 1 / 2" using u by simp
  finally have "py_round (x / u) = M" by (rule py_round_unique)
  then show ?thesis using assms(1) by (simp add: to_double_def u_def Let_def)
qed

lemma dyadic_on_grid:
  assumes "e + int j \<le> 52"
  shows "of_int m / 2 ^ j = (of_int (m * 2 ^ nat (52 - e - int j)) :: rat) * power_int 2 (e - 52)"
proof -
  have "power_int (2::rat) (52 - e - int j) = 2 ^ nat (52 - e - int j)"
    using assms by (simp add: power_int_nonneg_exp)
  moreover have "power_int (2::rat) (52 - e - int j) * power_int 2 (e - 52) = power_int 2 (- int j)"
  proof -
    have "power_int (2::rat) ((52 - e - int j) + (e - 52)) = power_int 2 (52 - e - int j) * power_int 2 (e - 52)"
      by (rule power_int_add) simp
    then show ?thesis by simp
  qed
  moreover have "power_int (2::rat) (- int j) = 1 / 2 ^ j"
    by (simp add: power_int_minus field_simps)
  ultimately have "(2 ^ nat (52 - e - int j) :: rat) * power_int 2 (e - 52) = 1 / 2 ^ j" by simp
  then have "(of_int m :: rat) * (2 ^ nat (52 - e - int j) * power_int 2 (e - 52)) = of_int m * (1 / 2 ^ j)"
    by simp
  then show ?thesis by (simp add: mult.assoc)
qed

lemma to_double_near_dyadic:
  assumes "x \<noteq> 0" and "expo x + int j \<le> 52"
    and "\<bar>x - of_int m / 2 ^ j\<bar> < power_int 2 (expo x - 53)"
  shows "to_double x = of_int m / 2 ^ j"
proof -
  have h: "power_int (2::rat) (expo x - 52) / 2 = power_int 2 (expo x - 53)"
  proof -
    have "power_int (2::rat) ((expo x - 52) - 1) = power_int 2 (expo x - 52) / power_int 2 1"
      by (rule power_int_diff) simp
    moreover have "expo x - 52 - 1 = expo x - 53" by simp
    ultimately show ?thesis by simp
  qed
  note g = dyadic_on_grid[OF assms(2), of m]
  show ?thesis
    using to_double_nearest[OF assms(1), of "m * 2 ^ nat (52 - expo x - int j)"] assms(3)
    unfolding g[symmetric] h by simp
qed

lemma to_double_dyadic:
  assumes "\<bar>m\<bar> < 2 ^ 53"
  shows "to_double (of_int m / 2 ^ j) = of_int m / 2 ^ j"
proof (cases "m = 0")
  case True
  then show ?thesis by (simp add: to_double_def)
next
  case False
  define x :: rat where "x = of_int m / 2 ^ j"
  have x0: "x \<noteq> 0" using False by (simp add: x_def)
  have "\<bar>x\<bar> = of_int \<bar>m\<bar> / 2 ^ j" by (simp add: x_def abs_divide)
  also have "\<dots> < 2 ^ 53 / 2 ^ j"
  proof -
    have "(of_int \<bar>m\<bar> :: rat) < of_int (2 ^ 53)" using assms by (simp only: of_int_less_iff)
    then show ?thesis by (simp add: divide_strict_right_mono)
  qed
  also have "\<dots> = power_int 2 (53 - int j)"
  proof -
    have "power_int (2::rat) (53 - int j) = power_int 2 53 / power_int 2 (int j)"
      by (rule power_int_diff) simp
    then show ?thesis by simp
  qed
  finally have "expo x < 53 - int j" by (rule expo_less[OF x0])
  then have e: "expo x + int j \<le> 52" by simp
  have "\<bar>x - of_int m / 2 ^ j\<bar> < power_int 2 (expo x - 53)" by (simp add: x_def)
  then show ?thesis using to_double_near_dyadic[OF x0 e, of m] by (simp add: x_def)
qed

lemma to_double_of_int: "\<bar>n\<bar> < 2 ^ 53 \<Longrightarrow> to_double (of_int n) = of_int n"
  using to_double_dyadic[of n 0] by simp

lemma py_round_half_even: "rounds_half_even x (py_round x)"
proof -
  define d where "d = x - of_int \<lfloor>x\<rfloor>"
  have f: "0 \<le> d" "d < 1" unfolding d_def by linarith+
  have x: "x = of_int \<lfloor>x\<rfloor> + d" by (simp add: d_def)
  consider "d < 1 / 2" | "1 / 2 < d" | "d = 1 / 2" "even \<lfloor>x\<rfloor>" | "d = 1 / 2" "odd \<lfloor>x\<rfloor>"
    by fastforce
  then show ?thesis
  proof cases
    case 1
    then have "py_round x = \<lfloor>x\<rfloor>" by (simp add: py_round_def Let_def d_def)
    moreover have "\<bar>x - of_int \<lfloor>x\<rfloor>\<bar> < 1 / 2" using 1 f by (simp add: d_def[symmetric])
    ultimately show ?thesis by (simp add: rounds_half_even_def)
  next
    case 2
    then have "py_round x = \<lfloor>x\<rfloor> + 1" by (simp add: py_round_def Let_def d_def)
    moreover have "\<bar>x - of_int (\<lfloor>x\<rfloor> + 1)\<bar> < 1 / 2" using 2 f x by simp
    ultimately show ?thesis by (simp add: rounds_half_even_def)
  next
    case 3
    then have "py_round x = \<lfloor>x\<rfloor>" by (simp add: py_round_def Let_def d_def)
    moreover have "\<bar>x - of_int \<lfloor>x\<rfloor>\<bar> = 1 / 2" using 3 by (simp add: d_def[symmetric])
    ultimately show ?thesis using 3 by (simp add: rounds_half_even_def)
  next
    case 4
    then have "py_round x = \<lfloor>x\<rfloor> + 1" by (simp add: py_round_def Let_def d_def)
    moreover have "\<bar>x - of_int (\<lfloor>x\<rfloor> + 1)\<bar> = 1 / 2" using 4 x by simp
    ultimately show ?thesis using 4 by (simp add: rounds_half_even_def)
  qed
qed

lemma mul_round_no_tie:
  assumes n: "0 \<le> n" "n < 2 ^ 48" and r: "0 \<le> r" "r \<le> 1"
    and c: "\<bar>c - r\<bar> \<le> r / 2 ^ 53"
    and j: "of_int n * r = of_int j / 10" "j mod 10 \<noteq> 5"
  shows "py_round (py_mul_int_float n c) = py_round (of_int n * r)"
proof -
  define N :: rat where "N = of_int n"
  define x where "x = N * c"
  define P where "P = to_double x"
  define k where "k = py_round (N * r)"
  have N0: "0 \<le> N" using n(1) by (simp add: N_def)
  have "(of_int n :: rat) < of_int (2 ^ 48)" using n(2) by (simp only: of_int_less_iff)
  then have N1: "N < 2 ^ 48" by (simp add: N_def)
  have "\<bar>n\<bar> < 2 ^ 53" using n by simp
  then have tn: "to_double N = N" unfolding N_def by (rule to_double_of_int)
  have "\<bar>x - N * r\<bar> = N * \<bar>c - r\<bar>"
  proof -
    have "x - N * r = N * (c - r)" by (simp add: x_def algebra_simps)
    then show ?thesis using N0 by (simp add: abs_mult)
  qed
  also have "\<dots> \<le> N * (r / 2 ^ 53)" using c N0 by (rule mult_left_mono)
  also have "\<dots> \<le> N * (1 / 2 ^ 53)" using r(2) N0 by (intro mult_left_mono) (simp_all add: divide_right_mono)
  finally have e1: "\<bar>x - N * r\<bar> \<le> N / 2 ^ 53" by simp
  have "N * r \<le> N * 1" using r(2) N0 by (rule mult_left_mono)
  then have Nr: "N * r \<le> N" by simp
  have Nr0: "0 \<le> N * r" using N0 r(1) by simp
  have "\<bar>x\<bar> \<le> \<bar>x - N * r\<bar> + \<bar>N * r\<bar>" by linarith
  then have ax: "\<bar>x\<bar> \<le> N / 2 ^ 53 + N" using e1 Nr Nr0 by linarith
  have "\<bar>P - x\<bar> \<le> \<bar>x\<bar> / 2 ^ 53" unfolding P_def by (rule to_double_rel)
  also have "\<dots> \<le> (N / 2 ^ 53 + N) / 2 ^ 53" using ax by (simp add: divide_right_mono)
  finally have e2: "\<bar>P - x\<bar> \<le> (N / 2 ^ 53 + N) / 2 ^ 53" .
  have "\<bar>P - N * r\<bar> \<le> \<bar>P - x\<bar> + \<bar>x - N * r\<bar>" by linarith
  then have "\<bar>P - N * r\<bar> \<le> (N / 2 ^ 53 + N) / 2 ^ 53 + N / 2 ^ 53" using e1 e2 by linarith
  also have "\<dots> < 3 / 32" using N1 N0 by (simp add: field_simps)
  finally have e3: "\<bar>P - N * r\<bar> < 3 / 32" .
  define y where "y = of_int k - N * r"
  have kr: "\<bar>y\<bar> \<le> 1 / 2" unfolding y_def k_def by (rule py_round_err)
  define D where "D = 10 * k - j"
  have Deq: "(of_int D :: rat) = 10 * y"
    using j(1) by (simp add: D_def N_def y_def algebra_simps)
  have "\<bar>(of_int D :: rat)\<bar> = 10 * \<bar>y\<bar>" unfolding Deq by (simp add: abs_mult)
  then have "\<bar>(of_int D :: rat)\<bar> \<le> 5" using kr by linarith
  then have "(of_int \<bar>D\<bar> :: rat) \<le> of_int 5" by simp
  then have D5: "\<bar>D\<bar> \<le> 5" by (simp only: of_int_le_iff)
  have "\<bar>D\<bar> \<noteq> 5" using j(2) unfolding D_def by presburger
  then have "\<bar>D\<bar> \<le> 4" using D5 by simp
  then have "(of_int \<bar>D\<bar> :: rat) \<le> of_int 4" by (simp only: of_int_le_iff)
  then have "\<bar>(of_int D :: rat)\<bar> \<le> 4" by simp
  then have "10 * \<bar>y\<bar> \<le> 4" using \<open>\<bar>(of_int D :: rat)\<bar> = 10 * \<bar>y\<bar>\<close> by linarith
  then have "\<bar>y\<bar> \<le> 4 / 10" by linarith
  then have e4: "\<bar>of_int k - N * r\<bar> \<le> 4 / 10" by (simp only: y_def)
  have "\<bar>P - of_int k\<bar> \<le> \<bar>P - N * r\<bar> + \<bar>of_int k - N * r\<bar>" by linarith
  then have "\<bar>P - of_int k\<bar> < 1 / 2" using e3 e4 by linarith
  then have "py_round P = k" by (rule py_round_unique)
  then show ?thesis by (simp add: py_mul_int_float_def P_def x_def k_def tn N_def[symmetric])
qed

lemma mul_tie_030:
  assumes n: "0 < n" "n < 2 ^ 48" and k: "3 * n = 10 * k + 5"
  shows "py_mul_int_float n (to_double (30 / 100)) = of_int n * (30 / 100)"
proof -
  define N :: rat where "N = of_int n"
  define c :: rat where "c = 5404319552844595 / 18014398509481984"
  define x where "x = N * c"
  have N0: "0 < N" using n(1) by (simp add: N_def)
  have "(of_int n :: rat) < of_int (2 ^ 48)" using n(2) by (simp only: of_int_less_iff)
  then have N1: "N < 2 ^ 48" by (simp add: N_def)
  have "\<bar>n\<bar> < 2 ^ 53" using n by simp
  then have tn: "to_double N = N" unfolding N_def by (rule to_double_of_int)
  have "(of_int (3 * n) :: rat) = of_int (10 * k + 5)" using k by simp
  then have "N * 3 = 10 * of_int k + 5" by (simp add: N_def mult.commute)
  then have V: "N * (30 / 100) = of_int (2 * k + 1) / 2 ^ 1" by simp
  have x0: "x \<noteq> 0" and xpos: "0 < x" using N0 by (simp_all add: x_def c_def)
  have xN: "x \<le> N" using N0 by (simp add: x_def c_def)
  have d: "N * (30 / 100) - x = N / (5 * 2 ^ 54)" by (simp add: x_def c_def)
  have low: "N / 5 \<le> x" using N0 by (simp add: x_def c_def)
  have "\<bar>x\<bar> < power_int 2 48" using xN N1 xpos by simp
  then have "expo x < 48" by (rule expo_less[OF x0])
  then have e: "expo x + int 1 \<le> 52" by simp
  have "x < power_int 2 (expo x + 1)" using expo_bounds(2)[OF x0] xpos by simp
  then have "x / 2 ^ 54 < power_int 2 (expo x + 1) / 2 ^ 54" by (simp add: divide_strict_right_mono)
  also have "power_int (2::rat) (expo x + 1) / 2 ^ 54 = power_int 2 (expo x - 53)"
  proof -
    have "power_int (2::rat) ((expo x + 1) - 54) = power_int 2 (expo x + 1) / power_int 2 54"
      by (rule power_int_diff) simp
    moreover have "expo x + 1 - 54 = expo x - 53" by simp
    ultimately show ?thesis by simp
  qed
  finally have up: "x / 2 ^ 54 < power_int 2 (expo x - 53)" .
  have "N / (5 * 2 ^ 54) \<le> x / 2 ^ 54" using low by (simp add: field_simps)
  then have "\<bar>x - N * (30 / 100)\<bar> < power_int 2 (expo x - 53)"
    using d up N0 by (simp add: abs_if) linarith?
  then have t: "to_double x = of_int (2 * k + 1) / 2 ^ 1"
    unfolding V by (rule to_double_near_dyadic[OF x0 e])
  have "py_mul_int_float n (to_double (30 / 100)) =
      to_double (of_int n * (5404319552844595 / 18014398509481984))"
    by (simp only: py_mul_int_float_def double_030 tn[unfolded N_def])
  also have "\<dots> = to_double x" by (simp only: x_def c_def N_def)
  also have "\<dots> = N * (30 / 100)" by (simp only: t V)
  finally show ?thesis by (simp only: N_def)
qed

lemma rate_error: "\<bar>to_double r - r\<bar> \<le> r / 2 ^ 53" if "0 \<le> r"
  using to_double_rel[of r] that by simp

lemma next_count_exact:
  assumes "0 \<le> n" and "n < 2 ^ 48"
  shows "next_count t s n = py_round (of_int n * configured_rate t s)"
proof -
  have tenth: "py_round (py_mul_int_float n (to_double (of_int a / 10))) = py_round (of_int n * (of_int a / 10))"
    if "(a * n) mod 10 \<noteq> 5" "0 \<le> a" "a \<le> 10" for a
  proof (rule mul_round_no_tie[OF assms, where j = "a * n"])
    show "0 \<le> (of_int a :: rat) / 10" using that by simp
    show "(of_int a :: rat) / 10 \<le> 1" using that by simp
    show "\<bar>to_double (of_int a / 10) - of_int a / 10\<bar> \<le> of_int a / 10 / 2 ^ 53"
      using that by (intro rate_error) simp
    show "of_int n * (of_int a / 10) = (of_int (a * n) :: rat) / 10" by simp
    show "a * n mod 10 \<noteq> 5" by (rule that(1))
  qed
  have r40: "py_round (py_mul_int_float n (to_double (40 / 100))) = py_round (of_int n * (40 / 100))"
  proof -
    have "(4 * n) mod 10 \<noteq> 5" by presburger
    from tenth[OF this] show ?thesis by simp
  qed
  have r20: "py_round (py_mul_int_float n (to_double (20 / 100))) = py_round (of_int n * (20 / 100))"
  proof -
    have "(2 * n) mod 10 \<noteq> 5" by presburger
    from tenth[OF this] show ?thesis by simp
  qed
  have r60: "py_round (py_mul_int_float n (to_double (60 / 100))) = py_round (of_int n * (60 / 100))"
  proof -
    have "(6 * n) mod 10 \<noteq> 5" by presburger
    from tenth[OF this] show ?thesis by simp
  qed
  have r30: "py_round (py_mul_int_float n (to_double (30 / 100))) = py_round (of_int n * (30 / 100))"
  proof (cases "(3 * n) mod 10 = 5")
    case False
    from tenth[OF this] show ?thesis by simp
  next
    case True
    then obtain k where k: "3 * n = 10 * k + 5" by (metis mult.commute mod_mult_div_eq add.commute mult_div_mod_eq)
    then have "0 < n" using assms(1) by presburger
    from mul_tie_030[OF this assms(2) k] show ?thesis by (simp only:)
  qed
  have small: "\<bar>n\<bar> < 2 ^ 53" using assms by simp
  have tn: "to_double (of_int n) = of_int n" using small by (rule to_double_of_int)
  have r50: "py_round (py_mul_int_float n (to_double (50 / 100))) = py_round (of_int n * (50 / 100))"
  proof -
    have a: "(of_int n :: rat) * (1 / 2) = of_int n / 2 ^ 1" by simp
    have b: "(of_int n :: rat) * (50 / 100) = of_int n / 2 ^ 1" by simp
    show ?thesis by (simp only: py_mul_int_float_def double_050 tn a b to_double_dyadic[OF small])
  qed
  have r25: "py_round (py_mul_int_float n (to_double (25 / 100))) = py_round (of_int n * (25 / 100))"
  proof -
    have a: "(of_int n :: rat) * (1 / 4) = of_int n / 2 ^ 2" by simp
    have b: "(of_int n :: rat) * (25 / 100) = of_int n / 2 ^ 2" by simp
    show ?thesis by (simp only: py_mul_int_float_def double_025 tn a b to_double_dyadic[OF small])
  qed
  show ?thesis
    unfolding next_count_def
    by (cases t; cases s) (simp_all only: CONVERSION_RATES.simps configured_rate.simps r20 r25 r30 r40 r50 r60)
qed

lemma length_categorize_all: "length (categorize_all lbp) = length (concat (map snd lbp))"
  by (induction lbp) (auto simp: categorize_all_def)

lemma count_segment_bounds: "0 \<le> count_segment g ls \<and> count_segment g ls \<le> int (length ls)"
  by (simp add: count_segment_def)

section \<open>The shape of the funnel\<close>

lemma guarded_div:
  "(if 0 < d then py_truediv a (of_int d) else Inr 0) =
   Inr (if 0 < d then to_double (to_double a / to_double (of_int d)) else 0)"
  by (simp add: py_truediv_def)

lemma guarded_progress:
  "(if 0 < t then then_res (py_truediv a t) (\<lambda>q. Inr (to_double (q * 100))) else Inr 0) =
   Inr (if 0 < t then to_double (to_double (to_double a / to_double t) * 100) else 0)"
  by (simp add: py_truediv_def then_res_def)

lemma then_res_Inr: "then_res (Inr v) f = f v"
  by (simp add: then_res_def)

lemma generate_funnel_shape:
  "\<exists>r s1 s2 s3 s4. generate_funnel lbp tgt = Inr r \<and> funnel_stages r = [s1, s2, s3, s4] \<and>
     categorized_leads r = categorize_all lbp \<and>
     Target_Progress (funnel_summary r) =
       (if 0 < tgt then to_double (to_double (to_double (of_int (Estimated_Revenue (funnel_summary r))) / to_double tgt) * 100) else 0) \<and>
     (\<forall>g. seg_count g s1 = count_segment g (categorize_all lbp) \<and>
          seg_count g s2 = next_count Leads_Qualified g (seg_count g s1) \<and>
          seg_count g s3 = next_count Qualified_Opportunity g (seg_count g s2) \<and>
          seg_count g s4 = next_count Opportunity_Closed_Won g (seg_count g s3))"
proof -
  have "\<And>g. seg_count g = (\<lambda>r. case g of Enterprise \<Rightarrow> row_Enterprise r | Midmarket \<Rightarrow> row_Midmarket r | SMB \<Rightarrow> row_SMB r)"
    subgoal for g by (cases g) auto done
  then show ?thesis
    unfolding generate_funnel_def guarded_div guarded_progress then_res_Inr Let_def
    by (simp add: row_of_def split: segment.split)
qed

section \<open>Properties of the funnel generator\<close>

text \<open>
  C1. For every input of \<open>generate_funnel\<close>, the function returns four stage rows, and at
  every stage transition, for each of Enterprise, Midmarket and SMB, the count of the later
  stage is at most the count of the stage before it.
\<close>

theorem generate_funnel_counts_nonincreasing:
  "\<exists>r s1 s2 s3 s4. generate_funnel leads_by_partner current_quarter_target = Inr r \<and>
     funnel_stages r = [s1, s2, s3, s4] \<and>
     row_Enterprise s2 \<le> row_Enterprise s1 \<and> row_Midmarket s2 \<le> row_Midmarket s1 \<and>
     row_SMB s2 \<le> row_SMB s1 \<and>
     row_Enterprise s3 \<le> row_Enterprise s2 \<and> row_Midmarket s3 \<le> row_Midmarket s2 \<and>
     row_SMB s3 \<le> row_SMB s2 \<and>
     row_Enterprise s4 \<le> row_Enterprise s3 \<and> row_Midmarket s4 \<le> row_Midmarket s3 \<and>
     row_SMB s4 \<le> row_SMB s3"
proof -
  obtain r s1 s2 s3 s4 where r: "generate_funnel leads_by_partner current_quarter_target = Inr r"
      and st: "funnel_stages r = [s1, s2, s3, s4]"
      and c: "\<And>g. seg_count g s1 = count_segment g (categorize_all leads_by_partner) \<and>
          seg_count g s2 = next_count Leads_Qualified g (seg_count g s1) \<and>
          seg_count g s3 = next_count Qualified_Opportunity g (seg_count g s2) \<and>
          seg_count g s4 = next_count Opportunity_Closed_Won g (seg_count g s3)"
    using generate_funnel_shape[of leads_by_partner current_quarter_target] by blast
  have step: "seg_count g s2 \<le> seg_count g s1 \<and> seg_count g s3 \<le> seg_count g s2 \<and>
      seg_count g s4 \<le> seg_count g s3" for g
  proof -
    have n1: "0 \<le> seg_count g s1" using c[of g] by (simp add: count_segment_def)
    have n2: "0 \<le> seg_count g s2" using c[of g] n1 by (simp add: next_count_nonneg)
    have n3: "0 \<le> seg_count g s3" using c[of g] n2 by (simp add: next_count_nonneg)
    show ?thesis using c[of g] n1 n2 n3 by (simp add: next_count_le)
  qed
  show ?thesis
    using r st step[of Enterprise] step[of Midmarket] step[of SMB] by simp
qed

text \<open>
  C3. For every input with fewer than \<open>2 ^ 48\<close> leads, every count of a stage after the first
  is \<open>round\<close> of the count of the stage before it times the configured rate of the segment
  and transition: although the product is computed in floating point with a rate that is not
  the decimal written, the count is the half-even rounding of the exact product with the
  decimal rate. It is the integer nearest to that product, the even one at a tie, and not its
  truncation.
\<close>

theorem stage_counts_are_rounded_products:
  assumes "length (concat (map snd leads_by_partner)) < 2 ^ 48"
  shows "\<exists>r s1 s2 s3 s4. generate_funnel leads_by_partner current_quarter_target = Inr r \<and>
     funnel_stages r = [s1, s2, s3, s4] \<and>
     (\<forall>g. seg_count g s2 = py_round (of_int (seg_count g s1) * configured_rate Leads_Qualified g) \<and>
          seg_count g s3 = py_round (of_int (seg_count g s2) * configured_rate Qualified_Opportunity g) \<and>
          seg_count g s4 = py_round (of_int (seg_count g s3) * configured_rate Opportunity_Closed_Won g) \<and>
          rounds_half_even (of_int (seg_count g s1) * configured_rate Leads_Qualified g) (seg_count g s2) \<and>
          rounds_half_even (of_int (seg_count g s2) * configured_rate Qualified_Opportunity g) (seg_count g s3) \<and>
          rounds_half_even (of_int (seg_count g s3) * configured_rate Opportunity_Closed_Won g) (seg_count g s4))"
proof -
  obtain r s1 s2 s3 s4 where r: "generate_funnel leads_by_partner current_quarter_target = Inr r"
      and st: "funnel_stages r = [s1, s2, s3, s4]"
      and c: "\<And>g. seg_count g s1 = count_segment g (categorize_all leads_by_partner) \<and>
          seg_count g s2 = next_count Leads_Qualified g (seg_count g s1) \<and>
          seg_count g s3 = next_count Qualified_Opportunity g (seg_count g s2) \<and>
          seg_count g s4 = next_count Opportunity_Closed_Won g (seg_count g s3)"
    using generate_funnel_shape[of leads_by_partner current_quarter_target] by blast
  have "int (length (categorize_all leads_by_partner)) < int (2 ^ 48)"
    using assms by (simp only: length_categorize_all of_nat_less_iff)
  then have len: "int (length (categorize_all leads_by_partner)) < 2 ^ 48" by simp
  have step: "seg_count g s2 = py_round (of_int (seg_count g s1) * configured_rate Leads_Qualified g) \<and>
          seg_count g s3 = py_round (of_int (seg_count g s2) * configured_rate Qualified_Opportunity g) \<and>
          seg_count g s4 = py_round (of_int (seg_count g s3) * configured_rate Opportunity_Closed_Won g)" for g
  proof -
    have n1: "0 \<le> seg_count g s1" "seg_count g s1 < 2 ^ 48"
      using c[of g] count_segment_bounds[of g "categorize_all leads_by_partner"] len by simp_all
    have n2: "0 \<le> seg_count g s2" "seg_count g s2 < 2 ^ 48"
      using c[of g] n1 next_count_nonneg[of "seg_count g s1" Leads_Qualified g]
        next_count_le[of "seg_count g s1" Leads_Qualified g] by simp_all
    have n3: "0 \<le> seg_count g s3" "seg_count g s3 < 2 ^ 48"
      using c[of g] n2 next_count_nonneg[of "seg_count g s2" Qualified_Opportunity g]
        next_count_le[of "seg_count g s2" Qualified_Opportunity g] by simp_all
    show ?thesis
      using c[of g] next_count_exact[OF n1] next_count_exact[OF n2] next_count_exact[OF n3] by simp
  qed
  have "seg_count g s2 = py_round (of_int (seg_count g s1) * configured_rate Leads_Qualified g) \<and>
          seg_count g s3 = py_round (of_int (seg_count g s2) * configured_rate Qualified_Opportunity g) \<and>
          seg_count g s4 = py_round (of_int (seg_count g s3) * configured_rate Opportunity_Closed_Won g) \<and>
          rounds_half_even (of_int (seg_count g s1) * configured_rate Leads_Qualified g) (seg_count g s2) \<and>
          rounds_half_even (of_int (seg_count g s2) * configured_rate Qualified_Opportunity g) (seg_count g s3) \<and>
          rounds_half_even (of_int (seg_count g s3) * configured_rate Opportunity_Closed_Won g) (seg_count g s4)" for g
    using step[of g]
      py_round_half_even[of "of_int (seg_count g s1) * configured_rate Leads_Qualified g"]
      py_round_half_even[of "of_int (seg_count g s2) * configured_rate Qualified_Opportunity g"]
      py_round_half_even[of "of_int (seg_count g s3) * configured_rate Opportunity_Closed_Won g"]
    by simp
  then show ?thesis using r st by blast
qed

text \<open>
  Three Midmarket leads: the product with the rate 0.30 is 0.9, the count of qualified leads
  is 1, and the truncation of 0.9 would be 0.
\<close>

theorem stage_counts_are_rounded_products_witness:
  "length (concat (map snd [(''Pyxis'', [midmarket_lead, midmarket_lead, midmarket_lead])])) < 2 ^ 48 \<and>
   (\<exists>r s1 s2 s3 s4.
      generate_funnel [(''Pyxis'', [midmarket_lead, midmarket_lead, midmarket_lead])] 20000 = Inr r \<and>
      funnel_stages r = [s1, s2, s3, s4] \<and>
      seg_count Midmarket s1 = 3 \<and> seg_count Midmarket s2 = 1 \<and>
      rounds_half_even (3 * (30 / 100)) (seg_count Midmarket s2) \<and>
      \<lfloor>3 * (30 / 100) :: rat\<rfloor> = 0)"
proof -
  let ?lbp = "[(''Pyxis'', [midmarket_lead, midmarket_lead, midmarket_lead])]"
  have h: "length (concat (map snd ?lbp)) < 2 ^ 48" by simp
  obtain r s1 s2 s3 s4 where r: "generate_funnel ?lbp 20000 = Inr r"
      and st: "funnel_stages r = [s1, s2, s3, s4]"
      and c: "\<And>g. seg_count g s2 = py_round (of_int (seg_count g s1) * configured_rate Leads_Qualified g) \<and>
          rounds_half_even (of_int (seg_count g s1) * configured_rate Leads_Qualified g) (seg_count g s2)"
    using stage_counts_are_rounded_products[OF h, of 20000] by blast
  obtain r' t1 t2 t3 t4 where r': "generate_funnel ?lbp 20000 = Inr r'"
      and st': "funnel_stages r' = [t1, t2, t3, t4]"
      and c': "\<And>g. seg_count g t1 = count_segment g (categorize_all ?lbp)"
    using generate_funnel_shape[of ?lbp 20000] by blast
  have "r' = r" using r r' by simp
  then have "t1 = s1" using st st' by simp
  moreover have "count_segment Midmarket (categorize_all ?lbp) = 3" by code_simp
  ultimately have s1: "seg_count Midmarket s1 = 3" using c'[of Midmarket] by simp
  have "py_round (3 * (30 / 100)) = 1" by code_simp
  then have s2: "seg_count Midmarket s2 = 1" using c[of Midmarket] s1 by simp
  have "rounds_half_even (of_int (seg_count Midmarket s1) * configured_rate Leads_Qualified Midmarket)
      (seg_count Midmarket s2)"
    using c[of Midmarket] by blast
  then have "rounds_half_even (3 * (30 / 100)) (seg_count Midmarket s2)" using s1 by simp
  moreover have "\<lfloor>3 * (30 / 100) :: rat\<rfloor> = 0" by (rule floor_unique) simp_all
  ultimately show ?thesis using h r st s1 s2 by blast
qed

text \<open>
  C2. \<open>categorize_lead\<close> is monotone in its four signals: when no signal of the second lead
  is below the same signal of the first (in particular when one signal is raised and the other
  three are the same), the segment of the second lead is not in a lower tier. A signal missing
  from the dictionary reads as 0, as \<open>lead.get(key, 0)\<close> does.
\<close>

theorem categorize_lead_monotone:
  assumes "get_or (lead_current_mrr l) 0 \<le> get_or (lead_current_mrr l') 0"
    and "get_or (lead_user_count l) 0 \<le> get_or (lead_user_count l') 0"
    and "get_or (lead_referral_arr l) 0 \<le> get_or (lead_referral_arr l') 0"
    and "get_or (lead_lead_score l) 0 \<le> get_or (lead_lead_score l') 0"
  shows "tier (segment (categorize_lead l p)) \<le> tier (segment (categorize_lead l' p'))"
  using assms
  by (simp add: categorize_lead_def Let_def ENTERPRISE_CRITERIA_def MIDMARKET_CRITERIA_def)

text \<open>
  An SMB lead whose score is raised from 10 to 85 becomes an Enterprise lead.
\<close>

theorem categorize_lead_monotone_witness:
  "segment (categorize_lead smb_lead ''Pyxis'') = SMB \<and>
   segment (categorize_lead hot_lead ''Pyxis'') = Enterprise \<and>
   tier (segment (categorize_lead smb_lead ''Pyxis'')) \<le> tier (segment (categorize_lead hot_lead ''Pyxis''))"
  using categorize_lead_monotone[of smb_lead hot_lead "''Pyxis''" "''Pyxis''"]
  by (simp add: smb_lead_def hot_lead_def get_or_def categorize_lead_def Let_def
      ENTERPRISE_CRITERIA_def MIDMARKET_CRITERIA_def)

text \<open>
  C4. With a target of 0, \<open>generate_funnel\<close> returns with \<open>target_progress = 0\<close> whatever
  the leads (and so whatever the estimated revenue); and for no input does it raise
  \<open>ZeroDivisionError\<close>: every division is behind a guard on its divisor.
\<close>

theorem target_progress_zero_target:
  "(\<exists>r. generate_funnel leads_by_partner 0 = Inr r \<and> Target_Progress (funnel_summary r) = 0) \<and>
   generate_funnel leads_by_partner current_quarter_target \<noteq> Inl ZeroDivisionError"
proof -
  obtain r where r: "generate_funnel leads_by_partner 0 = Inr r"
    and "Target_Progress (funnel_summary r) =
       (if 0 < (0::rat) then to_double (to_double (to_double (of_int (Estimated_Revenue (funnel_summary r))) / to_double 0) * 100) else 0)"
    using generate_funnel_shape[of leads_by_partner 0] by blast
  then have "Target_Progress (funnel_summary r) = 0" by simp
  moreover obtain r' where "generate_funnel leads_by_partner current_quarter_target = Inr r'"
    using generate_funnel_shape[of leads_by_partner current_quarter_target] by blast
  ultimately show ?thesis using r by simp
qed

text \<open>
  C10. The rounding of the stage counts is round-half-to-even: a value of the form
  \<open>k + 1/2\<close> goes to \<open>k\<close> for even \<open>k\<close> and to \<open>k + 1\<close> for odd \<open>k\<close>. The product of
  the count 1 and the Midmarket rate 0.50 is exactly 1/2, and three Midmarket leads give one
  qualified Midmarket lead and no Midmarket opportunity.
\<close>

theorem round_half_even_collapses_single_lead:
  "(\<forall>j. py_round (of_int (2 * j) + 1 / 2) = 2 * j \<and>
        py_round (of_int (2 * j + 1) + 1 / 2) = 2 * j + 2) \<and>
   py_mul_int_float 1 (CONVERSION_RATES Qualified_Opportunity Midmarket) = 1 / 2 \<and>
   (\<exists>r s1 s2 s3 s4.
      generate_funnel [(''Pyxis'', [midmarket_lead, midmarket_lead, midmarket_lead])] 20000 = Inr r \<and>
      funnel_stages r = [s1, s2, s3, s4] \<and>
      row_Midmarket s1 = 3 \<and> row_Midmarket s2 = 1 \<and> row_Midmarket s3 = 0)"
proof -
  let ?lbp = "[(''Pyxis'', [midmarket_lead, midmarket_lead, midmarket_lead])]"
  have a: "py_round (of_int (2 * j) + 1 / 2) = 2 * j \<and>
        py_round (of_int (2 * j + 1) + 1 / 2) = 2 * j + 2" for j
  proof -
    have "\<lfloor>(of_int (2 * j) :: rat) + 1 / 2\<rfloor> = 2 * j" by (rule floor_unique) simp_all
    moreover have "\<lfloor>(of_int (2 * j + 1) :: rat) + 1 / 2\<rfloor> = 2 * j + 1" by (rule floor_unique) simp_all
    ultimately show ?thesis by (simp add: py_round_def Let_def)
  qed
  have b: "py_mul_int_float 1 (CONVERSION_RATES Qualified_Opportunity Midmarket) = 1 / 2"
    by code_simp
  obtain r s1 s2 s3 s4 where r: "generate_funnel ?lbp 20000 = Inr r"
      and st: "funnel_stages r = [s1, s2, s3, s4]"
      and c: "\<And>g. seg_count g s1 = count_segment g (categorize_all ?lbp) \<and>
          seg_count g s2 = next_count Leads_Qualified g (seg_count g s1) \<and>
          seg_count g s3 = next_count Qualified_Opportunity g (seg_count g s2) \<and>
          seg_count g s4 = next_count Opportunity_Closed_Won g (seg_count g s3)"
    using generate_funnel_shape[of ?lbp 20000] by blast
  have c1: "count_segment Midmarket (categorize_all ?lbp) = 3" by code_simp
  have c2: "next_count Leads_Qualified Midmarket 3 = 1" by code_simp
  have c3: "next_count Qualified_Opportunity Midmarket 1 = 0" by code_simp
  have "row_Midmarket s1 = 3 \<and> row_Midmarket s2 = 1 \<and> row_Midmarket s3 = 0"
    using c[of Midmarket] c1 c2 c3 by simp
  then show ?thesis using a b r st by blast
qed

section \<open>Properties of the table synchronizer\<close>

lemma delete_each_issue:
  "delete_each srv u h row_ids n w =
     (case issue srv (map (\<lambda>row_id. Http (Delete (u @ ''/'' @ row_id) h)) row_ids) w of
        (outs, w') \<Rightarrow> (n + int (length (filter deleted outs)), w'))"
proof (induction row_ids arbitrary: n w)
  case Nil
  show ?case by simp
next
  case (Cons row_id row_ids)
  obtain out w1 where s: "srv w (Http (Delete (u @ ''/'' @ row_id) h)) = (out, w1)"
    by (cases "srv w (Http (Delete (u @ ''/'' @ row_id) h))")
  show ?case
  proof (cases out)
    case (Raises m)
    then show ?thesis using s Cons.IH[of n w1] by (simp split: prod.splits)
  next
    case (Response r)
    then show ?thesis
      using s Cons.IH[of "n + 1" w1] Cons.IH[of n w1] by (simp split: prod.splits)
  qed
qed

lemma issue_length: "length (fst (issue srv as w)) = length as"
proof (induction as arbitrary: w)
  case Nil
  show ?case by simp
next
  case (Cons a as)
  obtain out w1 where s: "srv w a = (out, w1)" by (cases "srv w a")
  obtain outs w2 where i: "issue srv as w1 = (outs, w2)" by (cases "issue srv as w1")
  show ?case using Cons.IH[of w1] s i by simp
qed

text \<open>
  C5, as the code has it. \<open>delete_rows\<close> sends one DELETE for every row id of the list, in
  the order of the list, whatever the earlier ones did: an exception or a bad status of one
  DELETE aborts nothing. It does not return the number of rows deleted but a truth value:
  whether every DELETE got a response with status 200 or 204 (true for the empty list, for
  which no request is sent).
\<close>

theorem delete_rows_best_effort:
  assumes "require_doc_id self d = Inr doc"
  shows "delete_rows srv self table_id row_ids d w =
     (case issue srv (map (delete_request self doc table_id) row_ids) w of
        (outs, w') \<Rightarrow> (Inr (list_all deleted outs), w'))"
proof (cases "row_ids = []")
  case True
  then show ?thesis using assms by (simp add: delete_rows_def)
next
  case False
  let ?reqs = "map (delete_request self doc table_id) row_ids"
  obtain outs w' where i: "issue srv ?reqs w = (outs, w')" by (cases "issue srv ?reqs w")
  have len: "length outs = length row_ids" using issue_length[of srv ?reqs w] i by simp
  have "(length (filter deleted outs) = length outs) = list_all deleted outs"
    by (metis filter_id_conv length_filter_less less_irrefl list_all_iff filter_True)
  then have "(int (length (filter deleted outs)) = int (length row_ids)) = list_all deleted outs"
    using len by simp
  then have b: "(0 + int (length (filter deleted outs)) = int (length row_ids)) = list_all deleted outs"
    by simp
  have f: "(\<lambda>row_id. Http (Delete (rows_url self doc table_id @ ''/'' @ row_id) (get_headers self)))
      = delete_request self doc table_id"
    by (simp add: delete_request_def fun_eq_iff)
  have e: "delete_each srv (rows_url self doc table_id) (get_headers self) row_ids 0 w =
      (0 + int (length (filter deleted outs)), w')"
    by (simp only: delete_each_issue f i prod.case)
  have "delete_rows srv self table_id row_ids d w =
      (Inr (0 + int (length (filter deleted outs)) = int (length row_ids)), w')"
    using assms False e by (simp add: delete_rows_def rows_url_def Let_def)
  then show ?thesis by (simp only: b i prod.case)
qed

text \<open>Two rows, both deleted.\<close>

theorem delete_rows_best_effort_witness:
  "require_doc_id updater1 None = Inr ''G4dJxxWn4e'' \<and>
   delete_rows accepting updater1 ''grid-1'' [''i-1'', ''i-2''] None () = (Inr True, ())"
  using delete_rows_best_effort[of updater1 None "''G4dJxxWn4e''" accepting "''grid-1''" "[''i-1'', ''i-2'']" "()"]
  by (simp add: require_doc_id_def py_or_def updater1_def delete_request_def)

text \<open>
  C5 as stated fails: with two rows, both deleted, the loop has counted 2 and the function
  returns \<open>True\<close>, which as a Python integer is 1.
\<close>

theorem delete_rows_returns_no_count:
  "delete_rows accepting updater1 ''grid-1'' [''i-1'', ''i-2''] None () = (Inr True, ()) \<and>
   fst (delete_each accepting (rows_url updater1 ''G4dJxxWn4e'' ''grid-1'')
          (get_headers updater1) [''i-1'', ''i-2''] 0 ()) = 2 \<and>
   (of_bool True :: int) \<noteq> 2"
  by (simp add: delete_rows_def require_doc_id_def py_or_def updater1_def)

lemma require_doc_id_Some: "doc \<noteq> [] \<Longrightarrow> require_doc_id self (Some doc) = Inr doc"
  by (simp add: require_doc_id_def py_or_def)

lemma upsert_row_outcome:
  assumes "doc \<noteq> []" and "srv w (upsert_request self doc table_id a) = (out, w')"
  shows "upsert_row srv self table_id (row_data_of a) [''Account ID''] (Some doc) w =
     (case upsert_failure (rows_url self doc table_id) out of
        Some e \<Rightarrow> (Inl e, w')
      | None \<Rightarrow> (Inr (case out of Response r \<Rightarrow> json r | Raises m \<Rightarrow> NotJson m), w'))"
  using assms
  by (cases out)
     (auto simp: upsert_row_def require_doc_id_Some upsert_request_def rows_url_def Let_def
           split: option.splits body.splits)

lemma upsert_accounts_issue:
  assumes "doc \<noteq> []"
  shows "upsert_accounts srv self table_id doc rows n errs w =
     (case issue srv (map (upsert_request self doc table_id) rows) w of
        (outs, w') \<Rightarrow>
          ((n + count_ok (rows_url self doc table_id) outs,
            errs @ error_entries (rows_url self doc table_id) rows outs), w'))"
proof (induction rows arbitrary: n errs w)
  case Nil
  show ?case by simp
next
  case (Cons a rest)
  obtain out w1 where s: "srv w (upsert_request self doc table_id a) = (out, w1)"
    by (cases "srv w (upsert_request self doc table_id a)")
  obtain outs w2 where i: "issue srv (map (upsert_request self doc table_id) rest) w1 = (outs, w2)"
    by (cases "issue srv (map (upsert_request self doc table_id) rest) w1")
  note u = upsert_row_outcome[of doc srv w self table_id a out w1, OF assms s]
  show ?case
  proof (cases "upsert_failure (rows_url self doc table_id) out")
    case None
    then show ?thesis using u s i Cons.IH[of "n + 1" errs w1] by simp
  next
    case (Some e)
    then show ?thesis
      using u s i Cons.IH[of n "errs @ [''Account '' @ Account_ID a @ '': '' @ error_str e]" w1]
      by simp
  qed
qed

lemma update_accounts_table_rows_issue:
  assumes "doc \<noteq> []"
  shows "update_accounts_table_rows srv self table_id doc account_dicts w =
     (case issue srv (map (upsert_request self doc table_id) account_dicts) w of
        (outs, w') \<Rightarrow>
          (\<lparr>updated = count_ok (rows_url self doc table_id) outs,
            total = int (length account_dicts),
            errors = error_entries (rows_url self doc table_id) account_dicts outs\<rparr>, w'))"
  by (simp add: update_accounts_table_rows_def upsert_accounts_issue[OF assms] split: prod.splits)

text \<open>
  C6. The batch of \<open>update_accounts_table\<close> sends one upsert for every row, in order,
  whatever the earlier ones did. The report holds the number of upserts that succeeded, the
  number of rows, and one entry for each failed row, which starts with the row's key
  \<open>Account <id>\<close>. In particular, when the third of five upserts fails and the others
  succeed, the report is 4 updated, 5 in total and the one entry of the third row.
\<close>

theorem update_accounts_table_partial_success:
  assumes "doc \<noteq> []"
  shows "update_accounts_table_rows srv self table_id doc account_dicts w =
     (case issue srv (map (upsert_request self doc table_id) account_dicts) w of
        (outs, w') \<Rightarrow>
          (\<lparr>updated = count_ok (rows_url self doc table_id) outs,
            total = int (length account_dicts),
            errors = error_entries (rows_url self doc table_id) account_dicts outs\<rparr>, w')) \<and>
     (issue srv (map (upsert_request self doc table_id) [a1, a2, a3, a4, a5]) w =
           ([o1, o2, o3, o4, o5], w5) \<and>
      upsert_failure (rows_url self doc table_id) o1 = None \<and>
      upsert_failure (rows_url self doc table_id) o2 = None \<and>
      upsert_failure (rows_url self doc table_id) o3 = Some e \<and>
      upsert_failure (rows_url self doc table_id) o4 = None \<and>
      upsert_failure (rows_url self doc table_id) o5 = None \<longrightarrow>
      update_accounts_table_rows srv self table_id doc [a1, a2, a3, a4, a5] w =
        (\<lparr>updated = 4, total = 5,
          errors = [''Account '' @ Account_ID a3 @ '': '' @ error_str e]\<rparr>, w5))"
proof (intro conjI impI)
  show "update_accounts_table_rows srv self table_id doc account_dicts w =
     (case issue srv (map (upsert_request self doc table_id) account_dicts) w of
        (outs, w') \<Rightarrow>
          (\<lparr>updated = count_ok (rows_url self doc table_id) outs,
            total = int (length account_dicts),
            errors = error_entries (rows_url self doc table_id) account_dicts outs\<rparr>, w'))"
    by (rule update_accounts_table_rows_issue[OF assms])
next
  assume a: "issue srv (map (upsert_request self doc table_id) [a1, a2, a3, a4, a5]) w =
           ([o1, o2, o3, o4, o5], w5) \<and>
      upsert_failure (rows_url self doc table_id) o1 = None \<and>
      upsert_failure (rows_url self doc table_id) o2 = None \<and>
      upsert_failure (rows_url self doc table_id) o3 = Some e \<and>
      upsert_failure (rows_url self doc table_id) o4 = None \<and>
      upsert_failure (rows_url self doc table_id) o5 = None"
  show "update_accounts_table_rows srv self table_id doc [a1, a2, a3, a4, a5] w =
        (\<lparr>updated = 4, total = 5,
          errors = [''Account '' @ Account_ID a3 @ '': '' @ error_str e]\<rparr>, w5)"
    using a
    by (simp only: update_accounts_table_rows_issue[OF assms, of srv self table_id "[a1, a2, a3, a4, a5]" w] prod.case) simp
qed

text \<open>Five rows on a service whose third response has status 500.\<close>

theorem update_accounts_table_partial_success_witness:
  "update_accounts_table_rows third_fails updater1 ''grid-7'' ''G4dJxxWn4e''
     [acct ''101'', acct ''102'', acct ''103'', acct ''104'', acct ''105''] 0 =
   (\<lparr>updated = 4, total = 5,
     errors = [''Account 103: 500 Server Error: Internal Server Error for url: https://coda.io/apis/v1/docs/G4dJxxWn4e/tables/grid-7/rows'']\<rparr>, 5)"
proof -
  let ?u = "rows_url updater1 ''G4dJxxWn4e'' ''grid-7''"
  let ?ok = "Response \<lparr>status_code = 200, reason = ''OK'', json = Object None None\<rparr>"
  let ?bad = "Response \<lparr>status_code = 500, reason = ''Internal Server Error'', json = NotJson ''''\<rparr>"
  let ?e = "HTTPError ''500 Server Error: Internal Server Error for url: https://coda.io/apis/v1/docs/G4dJxxWn4e/tables/grid-7/rows''"
  have d: "''G4dJxxWn4e'' \<noteq> []" by simp
  have i: "issue third_fails (map (upsert_request updater1 ''G4dJxxWn4e'' ''grid-7'')
        [acct ''101'', acct ''102'', acct ''103'', acct ''104'', acct ''105'']) 0 =
      ([?ok, ?ok, ?bad, ?ok, ?ok], 5)"
    by (simp add: numeral_eq_Suc)
  have ok: "upsert_failure ?u ?ok = None" by (simp add: raise_for_status_def)
  have bad: "upsert_failure ?u ?bad = Some ?e"
    by (simp add: raise_for_status_def rows_url_def updater1_def show_nat.simps digit_char_def)
  show ?thesis
    using update_accounts_table_partial_success[OF d, of third_fails updater1 "''grid-7''"
        "[]" 0 "acct ''101''" "acct ''102''" "acct ''103''" "acct ''104''" "acct ''105''"
        ?ok ?ok ?bad ?ok ?ok 5 ?e] i ok bad
    by (simp add: acct_def)
qed

lemma items_of_Object: "items_of (Object items t) = (case items of None \<Rightarrow> [] | Some xs \<Rightarrow> xs)"
  by (cases items) simp_all

lemma with_token_eq:
  "(case tok of Some t \<Rightarrow> if t \<noteq> [] then AList.update ''pageToken'' t params else params
    | None \<Rightarrow> params) = with_token tok params"
  by (cases tok) simp_all

lemma loop_of_paged:
  assumes "paged srv u h ps w pages w'"
  shows "ps = with_token tok params \<Longrightarrow>
    list_tables_loop srv u h params acc tok w = Some (Inr (acc @ concat pages), w')"
  using assms
proof (induction arbitrary: params tok acc rule: paged.induct)
  case (last_page w ps r w' items t)
  then show ?case
    by (subst list_tables_loop.simps) (simp add: with_token_eq items_of_Object Let_def)
next
  case (next_page w ps r w1 items t pages w')
  have "list_tables_loop srv u h ps (acc @ items_of (json r)) (Some t) w1 =
      Some (Inr ((acc @ items_of (json r)) @ concat pages), w')"
    using next_page by (intro next_page.IH) simp
  then show ?case
    using next_page.hyps next_page.prems
    by (subst list_tables_loop.simps) (simp add: with_token_eq items_of_Object Let_def)
qed

lemma paged_of_loop:
  assumes "list_tables_loop srv u h params acc tok w = Some y"
  shows "\<forall>res w'. y = (Inr res, w') \<longrightarrow>
     (\<exists>pages. paged srv u h (with_token tok params) w pages w' \<and> res = acc @ concat pages)"
proof (rule list_tables_loop.raw_induct[where P = "\<lambda>srv u h params acc tok w y.
       \<forall>res w'. y = (Inr res, w') \<longrightarrow>
         (\<exists>pages. paged srv u h (with_token tok params) w pages w' \<and> res = acc @ concat pages)",
       OF _ assms], goal_cases)
  case (1 loop srv u h params acc tok w y)
  show ?case
  proof (intro allI impI)
    fix res w'
    assume y: "y = (Inr res, w')"
    obtain out w1 where s: "srv w (Http (Get u h (with_token tok params))) = (out, w1)"
      by (cases "srv w (Http (Get u h (with_token tok params)))")
    from 1(2) y s obtain r items t where out: "out = Response r"
      and st: "raise_for_status u r = None" and j: "json r = Object items t"
      by (auto simp: with_token_eq Let_def split: outcome.splits option.splits body.splits if_splits)
    show "\<exists>pages. paged srv u h (with_token tok params) w pages w' \<and> res = acc @ concat pages"
    proof (cases "truthy t")
      case False
      then have "res = acc @ items_of (json r)" and "w' = w1"
        using 1(2) y s out st j by (auto simp: with_token_eq Let_def items_of_Object)
      moreover have "paged srv u h (with_token tok params) w [items_of (json r)] w1"
        using s out st j False by (intro paged.last_page) auto
      ultimately show ?thesis by auto
    next
      case True
      then obtain t' where t: "t = Some t'" "t' \<noteq> []" by (cases t) auto
      have "loop srv u h (with_token tok params) (acc @ items_of (json r)) t w1 = Some y"
        using 1(2) s out st j True by (auto simp: with_token_eq Let_def items_of_Object)
      from 1(1)[OF this] y obtain pages where
        p: "paged srv u h (with_token t (with_token tok params)) w1 pages w'"
        and r: "res = (acc @ items_of (json r)) @ concat pages" by blast
      have "paged srv u h (with_token tok params) w (items_of (json r) # pages) w'"
        using s out st j t p by (intro paged.next_page[where t = t']) auto
      then show ?thesis using r by auto
    qed
  qed
qed

text \<open>
  C8. \<open>list_tables\<close> returns a list of items exactly when the service answers with a chain
  of pages, each but the last carrying a continuation token that the next request sends as
  \<open>pageToken\<close>, and the last carrying none; the items returned are the items of all the
  pages, in order, and the state reached is the state after the last page.
\<close>

theorem list_tables_follows_pagination:
  assumes "require_doc_id self d = Inr doc"
  shows "list_tables srv self d include_views w = Some (Inr all_items, w') \<longleftrightarrow>
    (\<exists>pages. paged srv (tables_url self doc) (get_headers self) (tables_params include_views) w pages w' \<and>
       all_items = concat pages)"
proof
  assume "list_tables srv self d include_views w = Some (Inr all_items, w')"
  then have "list_tables_loop srv (tables_url self doc) (get_headers self)
      (tables_params include_views) [] None w = Some (Inr all_items, w')"
    using assms by (simp add: list_tables_def tables_url_def tables_params_def Let_def)
  from paged_of_loop[OF this] show "\<exists>pages. paged srv (tables_url self doc) (get_headers self)
      (tables_params include_views) w pages w' \<and> all_items = concat pages"
    by simp
next
  assume "\<exists>pages. paged srv (tables_url self doc) (get_headers self) (tables_params include_views) w pages w' \<and>
       all_items = concat pages"
  then obtain pages where p: "paged srv (tables_url self doc) (get_headers self)
      (tables_params include_views) w pages w'" and a: "all_items = concat pages" by blast
  have "list_tables_loop srv (tables_url self doc) (get_headers self)
      (tables_params include_views) [] None w = Some (Inr ([] @ concat pages), w')"
    by (rule loop_of_paged[OF p]) simp
  then show "list_tables srv self d include_views w = Some (Inr all_items, w')"
    using assms a by (simp add: list_tables_def tables_url_def tables_params_def Let_def)
qed

text \<open>Three pages, four tables.\<close>

theorem list_tables_follows_pagination_witness:
  "list_tables three_pages updater1 None True 0 =
     Some (Inr [tbl ''grid-1'' ''Last Updated'', tbl ''grid-2'' ''Executive Summary'',
                tbl ''grid-3'' ''Upmarket Sales Funnel'', tbl ''grid-4'' ''Funnel Summary KPIs''], 3) \<and>
   (\<exists>pages. paged three_pages (tables_url updater1 ''G4dJxxWn4e'') (get_headers updater1)
      (tables_params True) 0 pages 3 \<and>
      [tbl ''grid-1'' ''Last Updated'', tbl ''grid-2'' ''Executive Summary'',
       tbl ''grid-3'' ''Upmarket Sales Funnel'', tbl ''grid-4'' ''Funnel Summary KPIs''] = concat pages)"
proof -
  have d: "require_doc_id updater1 None = Inr ''G4dJxxWn4e''"
    by (simp add: require_doc_id_def py_or_def updater1_def)
  have e: "list_tables three_pages updater1 None True 0 =
     Some (Inr [tbl ''grid-1'' ''Last Updated'', tbl ''grid-2'' ''Executive Summary'',
                tbl ''grid-3'' ''Upmarket Sales Funnel'', tbl ''grid-4'' ''Funnel Summary KPIs''], 3)"
    unfolding list_tables_def d sum.case
    apply (subst list_tables_loop.simps, simp add: raise_for_status_def updater1_def get_headers_def)
    apply (subst list_tables_loop.simps, simp add: raise_for_status_def)
    apply (subst list_tables_loop.simps, simp add: raise_for_status_def numeral_eq_Suc)
    done
  show ?thesis
    using list_tables_follows_pagination[OF d, of three_pages True 0 _ 3] e by blast
qed





text \<open>
  The hypothesis on the polls is needed: a poll that raises leaves the \<open>try\<close> block, the
  insert is sent again with the other column names, and when each of these is rejected the
  result is \<open>False\<close>.
\<close>

lemma failed_poll_retries_the_insert:
  "update_executive_summary_text_insert polls_fail updater1 ''G4dJxxWn4e'' ''grid-2''
     (Some ''c-1'') (Some ''Summary Text'') ''2 of 4 partners exceeding revenue targets'' False = (False, True)"
  by (simp add: update_executive_summary_text_insert_def Let_def upt_rec list_rows_def
      require_doc_id_Some raise_for_status_def)

section \<open>Properties of the locator parser\<close>

lemma not_alnum: "\<not> is_alnum CHR ''/''" "\<not> is_alnum CHR ''#''" "\<not> is_alnum CHR ''_''"
  by (simp_all add: is_alnum_def)

lemma lit_Cons: "lit [c] k (x # xs) = (if x = c then k xs else None)"
  by (auto simp: lit_def)

lemma lit_Nil: "lit [c] k [] = None"
  by (simp add: lit_def)

lemma lit_fails: "s = [] \<or> hd s \<noteq> c \<Longrightarrow> lit [c] k s = None"
  by (cases s) (auto simp: lit_Cons lit_Nil)

lemma many1_all_fail:
  assumes "rest = [] \<or> \<not> cls (hd rest)"
    and "\<And>b1 b2. b = b1 @ b2 \<Longrightarrow> b1 \<noteq> [] \<Longrightarrow> k b1 (b2 @ rest) = None"
  shows "many1 cls k (b @ rest) = None"
  using assms(2)
proof (induction b arbitrary: k)
  case Nil
  show ?case using assms(1) by (cases rest) auto
next
  case (Cons x b)
  have "many1 cls (\<lambda>m. k (x # m)) (b @ rest) = None"
  proof (rule Cons.IH[where k = "\<lambda>m. k (x # m)"])
    fix b1 b2 assume "b = b1 @ b2" "b1 \<noteq> []"
    then show "k (x # b1) (b2 @ rest) = None" using Cons.prems[of "x # b1" b2] by simp
  qed
  moreover have "k [x] (b @ rest) = None" using Cons.prems[of "[x]" b] by simp
  ultimately show ?case by simp
qed

lemma many1_longest_success:
  assumes "a \<noteq> []" and "\<forall>c \<in> set a. cls c"
    and "rest = [] \<or> \<not> cls (hd rest)"
    and "\<And>b1 b2. b = b1 @ b2 \<Longrightarrow> b1 \<noteq> [] \<Longrightarrow> k (a @ b1) (b2 @ rest) = None"
    and "k a (b @ rest) = Some r"
  shows "many1 cls k (a @ b @ rest) = Some r"
  using assms(1,2,4,5)
proof (induction a arbitrary: k rule: list_nonempty_induct)
  case (single x)
  have "many1 cls (\<lambda>m. k (x # m)) (b @ rest) = None"
  proof (rule many1_all_fail[where rest = rest and cls = cls and b = b and k = "\<lambda>m. k (x # m)"])
    show "rest = [] \<or> \<not> cls (hd rest)" by (rule assms(3))
  next
    fix b1 b2 assume "b = b1 @ b2" "b1 \<noteq> []"
    then show "k (x # b1) (b2 @ rest) = None" using single.prems(2)[of b1 b2] by simp
  qed
  then show ?case using single.prems by simp
next
  case (cons x a)
  have "many1 cls (\<lambda>m. k (x # m)) (a @ b @ rest) = Some r"
  proof (rule cons.IH[where k = "\<lambda>m. k (x # m)"])
    show "\<forall>c\<in>set a. cls c" using cons.prems(1) by simp
    show "\<And>b1 b2. b = b1 @ b2 \<Longrightarrow> b1 \<noteq> [] \<Longrightarrow> k (x # a @ b1) (b2 @ rest) = None"
      using cons.prems(2) by simp
    show "k (x # a) (b @ rest) = Some r" using cons.prems(3) by simp
  qed
  then show ?case using cons.prems(1) by simp
qed

lemma search_prefix:
  "search doc_table_pattern (''https://coda.io'' @ s) = search doc_table_pattern s"
  by (simp add: doc_table_pattern_def lit_def)

lemma tail_not_underscore:
  assumes "x # ys = b1 @ b2" and "b1 \<noteq> []" and "\<forall>c \<in> set ys. c \<noteq> CHR ''_''"
    and "rest = [] \<or> hd rest \<noteq> CHR ''_''"
  shows "b2 @ rest = [] \<or> hd (b2 @ rest) \<noteq> CHR ''_''"
proof (cases b2)
  case Nil
  then show ?thesis using assms(4) by simp
next
  case (Cons y b2')
  obtain z b1' where "b1 = z # b1'" using assms(2) by (cases b1) auto
  then have "ys = b1' @ b2" using assms(1) by simp
  then have "y \<in> set ys" using Cons by simp
  then show ?thesis using assms(3) Cons by simp
qed

text \<open>
  C9. For a locator \<open>https://coda.io/d/<name>_d<BBB>/<tablename>_<CCC>\<close>, with or without a
  page anchor \<open>#...\<close> after it, \<open>parse_coda_url\<close> returns the document id \<open>BBB\<close>, without
  the prefix \<open>d\<close>, and the table id \<open>CCC\<close>. The name is any non-empty text without \<open>/\<close>, the
  table name any non-empty text without \<open>#\<close>, and the two ids are non-empty and alphanumeric.
\<close>

theorem parse_coda_url_document_and_table:
  assumes "nm \<noteq> []" and "CHR ''/'' \<notin> set nm"
    and "BBB \<noteq> []" and "\<forall>c \<in> set BBB. is_alnum c"
    and "tn \<noteq> []" and "CHR ''#'' \<notin> set tn"
    and "CCC \<noteq> []" and "\<forall>c \<in> set CCC. is_alnum c"
    and "sfx = [] \<or> hd sfx = CHR ''#''"
  shows "parse_coda_url (''https://coda.io/d/'' @ nm @ ''_d'' @ BBB @ ''/'' @ tn @ ''_'' @ CCC @ sfx)
     = Inr (BBB, Some CCC)"
proof -
  define F :: "string \<Rightarrow> (string \<times> string) option"
    where "F = many1 is_alnum (\<lambda>g2 rest. Some (BBB, g2))"
  define K2 :: "string \<Rightarrow> (string \<times> string) option"
    where "K2 = opt (\<lambda>k. many1 (\<lambda>c. c \<noteq> CHR ''#'') (\<lambda>m1. lit ''_'' k)) F"
  define T where "T = tn @ ''_'' @ CCC @ sfx"
  have alnum_us: "\<forall>c \<in> set BBB. c \<noteq> CHR ''_''" "\<forall>c \<in> set CCC. c \<noteq> CHR ''_''"
    using assms(4,8) not_alnum(3) by auto
  have sfx_alnum: "sfx = [] \<or> \<not> is_alnum (hd sfx)" using assms(9) not_alnum(2) by auto
  have sfx_us: "sfx = [] \<or> hd sfx \<noteq> CHR ''_''" using assms(9) by auto
  have f: "F (CCC @ sfx) = Some (BBB, CCC)"
    unfolding F_def
    using many1_longest_success[of CCC is_alnum sfx "[]" "\<lambda>g2 rest. Some (BBB, g2)" "(BBB, CCC)"]
      assms(7,8) sfx_alnum by simp
  have "many1 (\<lambda>c. c \<noteq> CHR ''#'') (\<lambda>m1. lit ''_'' F) (tn @ (''_'' @ CCC) @ sfx) = Some (BBB, CCC)"
  proof (rule many1_longest_success[where a = tn and b = "''_'' @ CCC" and rest = sfx
        and cls = "\<lambda>c. c \<noteq> CHR ''#''" and k = "\<lambda>m1. lit ''_'' F"])
    show "tn \<noteq> []" by (rule assms(5))
    show "\<forall>c\<in>set tn. c \<noteq> CHR ''#''" using assms(6) by auto
    show "sfx = [] \<or> \<not> hd sfx \<noteq> CHR ''#''" using assms(9) by simp
    show "lit ''_'' F ((''_'' @ CCC) @ sfx) = Some (BBB, CCC)" using f by (simp add: lit_Cons)
    fix b1 b2 assume "''_'' @ CCC = b1 @ b2" "b1 \<noteq> []"
    then have "b2 @ sfx = [] \<or> hd (b2 @ sfx) \<noteq> CHR ''_''"
      using tail_not_underscore[of "CHR ''_''" CCC b1 b2 sfx] alnum_us(2) sfx_us by simp
    then show "lit ''_'' F (b2 @ sfx) = None" by (rule lit_fails)
  qed
  then have k2: "K2 T = Some (BBB, CCC)" by (simp add: K2_def opt_def T_def)
  have g1: "many1 is_alnum (\<lambda>g1. lit ''/''
      (opt (\<lambda>k. many1 (\<lambda>c. c \<noteq> CHR ''#'') (\<lambda>m1. lit ''_'' k))
         (many1 is_alnum (\<lambda>g2 rest. Some (g1, g2))))) (BBB @ [] @ (''/'' @ T)) = Some (BBB, CCC)"
  proof (rule many1_longest_success[where a = BBB and b = "[]" and rest = "''/'' @ T"
        and cls = is_alnum])
    show "BBB \<noteq> []" by (rule assms(3))
    show "\<forall>c\<in>set BBB. is_alnum c" by (rule assms(4))
    show "''/'' @ T = [] \<or> \<not> is_alnum (hd (''/'' @ T))" using not_alnum(1) by simp
    show "lit ''/'' (opt (\<lambda>k. many1 (\<lambda>c. c \<noteq> CHR ''#'') (\<lambda>m1. lit ''_'' k))
         (many1 is_alnum (\<lambda>g2 rest. Some (BBB, g2)))) ([] @ ''/'' @ T) = Some (BBB, CCC)"
      using k2 by (simp add: lit_Cons K2_def F_def)
  qed simp
  define K1 :: "string \<Rightarrow> (string \<times> string) option"
    where "K1 = opt (lit ''d'') (many1 is_alnum (\<lambda>g1. lit ''/''
      (opt (\<lambda>k. many1 (\<lambda>c. c \<noteq> CHR ''#'') (\<lambda>m1. lit ''_'' k))
         (many1 is_alnum (\<lambda>g2 rest. Some (g1, g2))))))"
  have k1: "K1 (''d'' @ BBB @ ''/'' @ T) = Some (BBB, CCC)"
    using g1 by (simp add: K1_def opt_def lit_Cons)
  have "many1 (\<lambda>c. c \<noteq> CHR ''/'') (\<lambda>m0. lit ''_'' K1) (nm @ (''_d'' @ BBB) @ (''/'' @ T)) = Some (BBB, CCC)"
  proof (rule many1_longest_success[where a = nm and b = "''_d'' @ BBB" and rest = "''/'' @ T"
        and cls = "\<lambda>c. c \<noteq> CHR ''/''" and k = "\<lambda>m0. lit ''_'' K1"])
    show "nm \<noteq> []" by (rule assms(1))
    show "\<forall>c\<in>set nm. c \<noteq> CHR ''/''" using assms(2) by auto
    show "''/'' @ T = [] \<or> \<not> hd (''/'' @ T) \<noteq> CHR ''/''" by simp
    show "lit ''_'' K1 ((''_d'' @ BBB) @ ''/'' @ T) = Some (BBB, CCC)" using k1 by (simp add: lit_Cons)
    fix b1 b2 assume "''_d'' @ BBB = b1 @ b2" "b1 \<noteq> []"
    then have "b2 @ (''/'' @ T) = [] \<or> hd (b2 @ (''/'' @ T)) \<noteq> CHR ''_''"
      using tail_not_underscore[of "CHR ''_''" "''d'' @ BBB" b1 b2 "''/'' @ T"] alnum_us(1) by simp
    then show "lit ''_'' K1 (b2 @ ''/'' @ T) = None" by (rule lit_fails)
  qed
  then have "doc_table_pattern (''/d/'' @ nm @ ''_d'' @ BBB @ ''/'' @ T) = Some (BBB, CCC)"
    by (simp add: doc_table_pattern_def K1_def lit_def)
  then have "search doc_table_pattern (''/d/'' @ nm @ ''_d'' @ BBB @ ''/'' @ T) = Some (BBB, CCC)"
    by simp
  then have "search doc_table_pattern (''https://coda.io'' @ ''/d/'' @ nm @ ''_d'' @ BBB @ ''/'' @ T)
      = Some (BBB, CCC)"
    by (simp only: search_prefix)
  then show ?thesis using assms(7) by (simp add: parse_coda_url_def T_def)
qed

text \<open>The locator of the claim, letter for letter.\<close>

theorem parse_coda_url_document_and_table_witness:
  "parse_coda_url ''https://coda.io/d/nameAAA_dBBB/tablename_CCC'' = Inr (''BBB'', Some ''CCC'')"
  using parse_coda_url_document_and_table[of "''nameAAA''" "''BBB''" "''tablename''" "''CCC''" "[]"]
  by (simp add: is_alnum_def)

end
